theory Spec2Isabelle
  imports Main "HOL-Library.AList"
begin

section \<open>Go values as seen through reflection\<close>

text \<open>
  The ClickHouse client of package \<open>ckgroup\<close> (file \<open>db/ckgroup/ckconnv2.go\<close>) inspects
  its arguments with Go's \<open>reflect\<close> package. The part of \<open>reflect\<close> that the code reads
  is modelled here: the kind of a type, the fields of a struct type (name, package
  path, tag), the elements of arrays and slices, and pointers.

  Values are finite trees, so a slice or pointer that reaches itself through the heap
  is outside the model. Go's \<open>int\<close> is modelled by \<open>int\<close>; where the code adds two
  of them the 64-bit wrap-around is written out (\<open>wrap64\<close>). A function that can
  return an error or panic returns a sum, with the error or panic on the left; a
  function that calls the driver takes the trace of the calls issued so far and returns
  the extended trace.
\<close>

datatype Kind =
    Invalid | Bool | Int_kind | Int8 | Int16 | Int32 | Int64
  | Uint | Uint8 | Uint16 | Uint32 | Uint64 | Uintptr
  | Float32 | Float64 | Complex64 | Complex128
  | Array | Chan | Func | Interface | Map | Pointer | Slice | String | Struct
  | UnsafePointer

text \<open>\<open>reflect.StructField\<close>: the tag is kept parsed, as the list of its key/value pairs.\<close>

record StructField =
  Name :: string
  PkgPath :: string
  Tag :: "(string \<times> string) list"

datatype rtype =
    TBasic Kind
  | TArray nat rtype
  | TSlice rtype
  | TPtr rtype
  | TStruct "(StructField \<times> rtype) list"

text \<open>The payload of a value whose kind is none of array, slice, pointer, struct, interface.\<close>

datatype prim = PBool bool | PNum int | PString string | POpaque string

datatype rvalue =
    VInvalid
  | VBasic Kind prim
  | VIface rvalue
  | VSeq Kind rtype "rvalue list"
  | VNil rtype
  | VPtr rvalue
  | VStruct "(StructField \<times> rvalue) list"

text \<open>
  \<open>VInvalid\<close> is the zero \<open>reflect.Value\<close> (and the nil interface value),
  \<open>VIface v\<close> a value of interface type holding \<open>v\<close>, \<open>VSeq k t vs\<close> an array or
  slice (\<open>k\<close>) with element type \<open>t\<close>, \<open>VNil t\<close> the nil pointer to \<open>t\<close>, and
  \<open>VStruct fvs\<close> a struct given by its fields in declaration order, each with its value.
\<close>

fun KindT :: "rtype \<Rightarrow> Kind" where
  "KindT (TBasic k) = k"
| "KindT (TArray n t) = Array"
| "KindT (TSlice t) = Slice"
| "KindT (TPtr t) = Pointer"
| "KindT (TStruct fs) = Struct"

fun KindV :: "rvalue \<Rightarrow> Kind" where
  "KindV VInvalid = Invalid"
| "KindV (VBasic k p) = k"
| "KindV (VIface v) = Interface"
| "KindV (VSeq k t vs) = k"
| "KindV (VNil t) = Pointer"
| "KindV (VPtr v) = Pointer"
| "KindV (VStruct fvs) = Struct"

fun type_of :: "rvalue \<Rightarrow> rtype" where
  "type_of VInvalid = TBasic Invalid"
| "type_of (VBasic k p) = TBasic k"
| "type_of (VIface v) = TBasic Interface"
| "type_of (VSeq k t vs) = (if k = Array then TArray (length vs) t else TSlice t)"
| "type_of (VNil t) = TPtr t"
| "type_of (VPtr v) = TPtr (type_of v)"
| "type_of (VStruct fvs) = TStruct (map (\<lambda>(f, v). (f, type_of v)) fvs)"

text \<open>\<open>reflect.TypeOf\<close>: the nil interface has no type (\<open>None\<close>).\<close>

definition TypeOf :: "rvalue \<Rightarrow> rtype option" where
  "TypeOf v = (if v = VInvalid then None else Some (type_of v))"

text \<open>\<open>Value.Interface()\<close>: the value as an \<open>interface{}\<close>; an interface value gives its content.\<close>

fun Interface_of :: "rvalue \<Rightarrow> rvalue" where
  "Interface_of (VIface v) = v"
| "Interface_of v = v"

text \<open>\<open>Type.Elem()\<close> and \<open>Value.Elem()\<close> on pointers.\<close>

fun ElemT :: "rtype \<Rightarrow> rtype" where
  "ElemT (TPtr t) = t"
| "ElemT (TSlice t) = t"
| "ElemT (TArray n t) = t"
| "ElemT t = t"

fun ElemV :: "rvalue \<Rightarrow> rvalue" where
  "ElemV (VPtr v) = v"
| "ElemV (VNil t) = VInvalid"
| "ElemV (VIface v) = v"
| "ElemV v = v"

fun fieldsT :: "rtype \<Rightarrow> StructField list" where
  "fieldsT (TStruct fs) = map fst fs"
| "fieldsT t = []"

text \<open>
  A value is well typed when every element of an array or slice has the declared
  element type; Go's type system guarantees it of every value the program can hold.
\<close>

fun well_typed :: "rvalue \<Rightarrow> bool"
  and well_typed_list :: "rtype \<Rightarrow> rvalue list \<Rightarrow> bool"
  and well_typed_fields :: "(StructField \<times> rvalue) list \<Rightarrow> bool" where
  "well_typed VInvalid = True"
| "well_typed (VBasic k p) = (k \<notin> {Invalid, Array, Slice, Pointer, Struct, Interface})"
| "well_typed (VIface v) = well_typed v"
| "well_typed (VSeq k t vs) = ((k = Array \<or> k = Slice) \<and> well_typed_list t vs)"
| "well_typed (VNil t) = True"
| "well_typed (VPtr v) = well_typed v"
| "well_typed (VStruct fvs) = well_typed_fields fvs"
| "well_typed_list t [] = True"
| "well_typed_list t (v # vs) = (type_of v = t \<and> well_typed v \<and> well_typed_list t vs)"
| "well_typed_fields [] = True"
| "well_typed_fields (fv # fvs) = (well_typed (snd fv) \<and> well_typed_fields fvs)"

section \<open>Strings\<close>

text \<open>\<open>strings.Split(s, sep)\<close> for a one-character separator.\<close>

fun Split :: "string \<Rightarrow> char \<Rightarrow> string list" where
  "Split [] sep = [[]]"
| "Split (c # cs) sep =
     (if c = sep then [] # Split cs sep
      else (case Split cs sep of [] \<Rightarrow> [[c]] | w # ws \<Rightarrow> (c # w) # ws))"

text \<open>\<open>strings.ToLower\<close> on ASCII text (field names are taken to be ASCII).\<close>

definition lower_char :: "char \<Rightarrow> char" where
  "lower_char c =
     (case map_of (zip ''ABCDEFGHIJKLMNOPQRSTUVWXYZ'' ''abcdefghijklmnopqrstuvwxyz'') c of
        None \<Rightarrow> c | Some d \<Rightarrow> d)"

definition ToLower :: "string \<Rightarrow> string" where
  "ToLower s = map lower_char s"

text \<open>\<open>strings.Join\<close>.\<close>

fun Join :: "string list \<Rightarrow> string \<Rightarrow> string" where
  "Join [] sep = []"
| "Join [x] sep = x"
| "Join (x # y # ys) sep = x @ sep @ Join (y # ys) sep"

text \<open>\<open>StructTag.Get(key)\<close>: the value of the first pair with that key, \<open>""\<close> when there is none.\<close>

definition Tag_Get :: "(string \<times> string) list \<Rightarrow> string \<Rightarrow> string" where
  "Tag_Get tag key = (case map_of tag key of None \<Rightarrow> [] | Some v \<Rightarrow> v)"

definition IsExported :: "StructField \<Rightarrow> bool" where
  "IsExported f = (PkgPath f = [])"

section \<open>Errors\<close>

text \<open>
  Every \<open>fmt.Errorf\<close> of the file is a constructor that carries the arguments of its
  format string; \<open>DriverError\<close> is an error of the store driver, \<open>Panic\<close> a run-time
  panic (which is never wrapped).
\<close>

datatype error =
    Panic string
  | DriverError string
  | DataMustBeSlice
  | DataMustBeStruct
  | AnalyzeFailed error
  | PrepareFailed error
  | ExtractFailed int error
  | AppendFailed error
  | SendFailed int int error
  | ConnectFailed error
  | PingFailed error
  | DestMustBePtrToSlice
  | ElemsMustBeStructs
  | CreatedAtRequired string string
  | ColumnsRequired

fun wrap :: "(error \<Rightarrow> error) \<Rightarrow> error \<Rightarrow> error" where
  "wrap f (Panic m) = Panic m"
| "wrap f e = f e"

section \<open>Column names and value conversion\<close>

definition getColumnName :: "StructField \<Rightarrow> string" where
  "getColumnName field =
     (if Tag_Get (Tag field) ''db'' \<noteq> [] then hd (Split (Tag_Get (Tag field) ''db'') (CHR '',''))
      else if Tag_Get (Tag field) ''json'' \<noteq> [] then hd (Split (Tag_Get (Tag field) ''json'') (CHR '',''))
      else ToLower (Name field))"

text \<open>The loop of \<open>analyzeStructure\<close> over the fields of the struct type.\<close>

fun analyze_loop :: "StructField list \<Rightarrow> string list \<Rightarrow> string list" where
  "analyze_loop [] columns = columns"
| "analyze_loop (field # rest) columns =
     (if \<not> IsExported field then analyze_loop rest columns
      else if getColumnName field = ''-'' then analyze_loop rest columns
      else analyze_loop rest (columns @ [getColumnName field]))"

definition analyzeStructure :: "rvalue \<Rightarrow> error + string list" where
  "analyzeStructure sample =
     (case TypeOf sample of
        None \<Rightarrow> Inl (Panic ''nil pointer dereference'')
      | Some t0 \<Rightarrow>
          (let t = (if KindT t0 = Pointer then ElemT t0 else t0)
           in if KindT t \<noteq> Struct then Inl DataMustBeStruct
              else Inr (analyze_loop (fieldsT t) [])))"

text \<open>
  What \<open>convertValue\<close> returns: \<open>nil\<close>, the empty \<open>[]interface{}{}\<close>, a
  \<open>[]map[string]interface{}\<close> (each map as the list of its entries, keys distinct),
  or the raw value (\<open>fieldValue.Interface()\<close>; for a field of interface type that
  holds nil this is \<open>WRaw VInvalid\<close>, Go's \<open>nil\<close> again).
\<close>

datatype wire =
    WNil
  | WEmpty
  | WMaps "(string \<times> wire) list list"
  | WRaw rvalue

fun convertValue :: "rvalue \<Rightarrow> error + wire"
  and convert_elems :: "rvalue list \<Rightarrow> (string \<times> wire) list list \<Rightarrow> error + (string \<times> wire) list list"
  and convert_fields :: "(StructField \<times> rvalue) list \<Rightarrow> (string \<times> wire) list \<Rightarrow> error + (string \<times> wire) list"
  where
  "convertValue VInvalid = Inr WNil"
| "convertValue (VSeq k t vs) =
     (if k = Slice \<or> k = Array then
        (if length vs = 0 then Inr WEmpty
         else if KindT t = Struct then
           (case convert_elems vs [] of Inl e \<Rightarrow> Inl e | Inr result \<Rightarrow> Inr (WMaps result))
         else Inr (WRaw (Interface_of (VSeq k t vs))))
      else Inr (WRaw (Interface_of (VSeq k t vs))))"
| "convertValue (VNil t) = Inr WNil"
| "convertValue (VPtr v) = convertValue v"
| "convertValue (VBasic k p) = Inr (WRaw (Interface_of (VBasic k p)))"
| "convertValue (VIface v) = Inr (WRaw (Interface_of (VIface v)))"
| "convertValue (VStruct fvs) = Inr (WRaw (Interface_of (VStruct fvs)))"
| "convert_elems [] result = Inr result"
| "convert_elems (elem # rest) result =
     (case elem of
        VStruct fvs \<Rightarrow>
          (case convert_fields fvs [] of
             Inl e \<Rightarrow> Inl e
           | Inr elemMap \<Rightarrow> convert_elems rest (result @ [elemMap]))
      | _ \<Rightarrow> Inl (Panic ''reflect: call of reflect.Value.NumField on non-struct Value''))"
| "convert_fields [] elemMap = Inr elemMap"
| "convert_fields (fv # rest) elemMap =
     (if \<not> IsExported (fst fv) then convert_fields rest elemMap
      else if getColumnName (fst fv) \<noteq> ''-'' then
        (case convertValue (snd fv) of
           Inl e \<Rightarrow> Inl e
         | Inr w \<Rightarrow> convert_fields rest (AList.update (getColumnName (fst fv)) w elemMap))
      else convert_fields rest elemMap)"

text \<open>The loop of \<open>extractValues\<close> over the fields, with \<open>values\<close> and \<open>columnIndex\<close>.\<close>

fun extract_loop ::
  "(StructField \<times> rvalue) list \<Rightarrow> string list \<Rightarrow> wire list \<Rightarrow> nat \<Rightarrow> error + wire list" where
  "extract_loop [] columns vals columnIndex = Inr vals"
| "extract_loop (fv # rest) columns vals columnIndex =
     (if \<not> IsExported (fst fv) then extract_loop rest columns vals columnIndex
      else if getColumnName (fst fv) = ''-'' then extract_loop rest columns vals columnIndex
      else if columnIndex \<ge> length columns then Inr vals
      else (case convertValue (snd fv) of
              Inl e \<Rightarrow> Inl e
            | Inr w \<Rightarrow> extract_loop rest columns (vals @ [w]) (columnIndex + 1)))"

definition extractValues :: "rvalue \<Rightarrow> string list \<Rightarrow> error + wire list" where
  "extractValues item columns =
     (case TypeOf item of
        None \<Rightarrow> Inl (Panic ''nil pointer dereference'')
      | Some t0 \<Rightarrow>
          (let v = (if KindT t0 = Pointer then ElemV item else item);
               t = (if KindT t0 = Pointer then ElemT t0 else t0)
           in if KindT t \<noteq> Struct then Inl (Panic ''reflect: NumField of non-struct type'')
              else (case v of
                      VStruct fvs \<Rightarrow> extract_loop fvs columns [] 0
                    | _ \<Rightarrow> (if fieldsT t = [] then Inr []
                           else Inl (Panic ''reflect: call of reflect.Value.Field on zero Value'')))))"

section \<open>The store driver and the client\<close>

text \<open>
  The driver (\<open>clickhouse-go\<close>) is outside the repository. A run records every driver
  call it issues, in order, in a trace; whether a call fails is the driver's choice,
  given the calls issued before it and the call's arguments (\<open>Some\<close> is the error).
\<close>

datatype event = EvPrepareBatch string | EvAppend "wire list" | EvSend | EvExec string

record driver =
  PrepareBatch :: "event list \<Rightarrow> string \<Rightarrow> string option"
  Append :: "event list \<Rightarrow> wire list \<Rightarrow> string option"
  Send :: "event list \<Rightarrow> string option"
  conn_Exec :: "event list \<Rightarrow> string \<Rightarrow> string option"

text \<open>
  What \<open>database/sql\<close> hands back for a query: the column names (or an error), the
  rows that \<open>Next\<close> delivers before it returns false, and the value of \<open>rows.Err()\<close>.
\<close>

record rows =
  Columns :: "string + string list"
  delivered :: "rvalue list list"
  Err :: "string option"

type_synonym sqldb = "string \<Rightarrow> rvalue list \<Rightarrow> string + rows"

record ClickHouseClient =
  conn :: "driver option"
  db :: "sqldb option"
  batchSize :: int

record Config =
  Hosts :: string
  Database :: string
  Username :: string
  Password :: string
  BatchSize :: int
  Debug :: bool

text \<open>
  The three entry points of \<open>clickhouse-go\<close> that the constructor calls, each with the
  parts of the configuration that the code passes to it (the addresses, the database,
  the user, the password and, for \<open>Open\<close>, the debug flag).
\<close>

record clickhouse =
  Open :: "string list \<Rightarrow> string \<Rightarrow> string \<Rightarrow> string \<Rightarrow> bool \<Rightarrow> string + driver"
  Ping :: "driver \<Rightarrow> string option"
  OpenDB :: "string list \<Rightarrow> string \<Rightarrow> string \<Rightarrow> string \<Rightarrow> sqldb"

text \<open>The second component is the new value of the package variable \<open>CKCONN\<close>.\<close>

definition NewClickHouseClient ::
  "clickhouse \<Rightarrow> Config \<Rightarrow> ClickHouseClient \<Rightarrow> (error + ClickHouseClient) \<times> ClickHouseClient" where
  "NewClickHouseClient lib config CKCONN =
     (let addr = Split (Hosts config) (CHR '','')
      in case Open lib addr (Database config) (Username config) (Password config) (Debug config) of
           Inl err \<Rightarrow> (Inl (ConnectFailed (DriverError err)), CKCONN)
         | Inr cn \<Rightarrow>
             (case Ping lib cn of
                Some err \<Rightarrow> (Inl (PingFailed (DriverError err)), CKCONN)
              | None \<Rightarrow>
                  (let ckconn = \<lparr>conn = Some cn,
                                  db = Some (OpenDB lib addr (Database config) (Username config) (Password config)),
                                  batchSize = (if BatchSize config \<le> 0 then 1000 else BatchSize config)\<rparr>
                   in (Inr ckconn, ckconn))))"

section \<open>Batch insertion\<close>

definition wrap64 :: "int \<Rightarrow> int" where
  "wrap64 x = (x + 2 ^ 63) mod 2 ^ 64 - 2 ^ 63"

fun elems :: "rvalue \<Rightarrow> rvalue list" where
  "elems (VSeq k t vs) = vs"
| "elems v = []"

definition prepareBatch ::
  "ClickHouseClient \<Rightarrow> string \<Rightarrow> string list \<Rightarrow> event list \<Rightarrow> (error + driver) \<times> event list" where
  "prepareBatch c tableName columns tr =
     (let sql = ''INSERT INTO '' @ tableName @ '' ('' @ Join columns '', '' @ '')''
      in case conn c of
           None \<Rightarrow> (Inl (Panic ''nil pointer dereference''), tr)
         | Some d \<Rightarrow>
             (case PrepareBatch d tr sql of
                Some err \<Rightarrow> (Inl (DriverError err), tr @ [EvPrepareBatch sql])
              | None \<Rightarrow> (Inr d, tr @ [EvPrepareBatch sql])))"

text \<open>The inner loop of \<open>BatchInsert\<close>: \<open>for j := i; j < end; j++\<close>.\<close>

function append_loop ::
  "driver \<Rightarrow> string list \<Rightarrow> rvalue list \<Rightarrow> int \<Rightarrow> int \<Rightarrow> event list \<Rightarrow> error option \<times> event list" where
  "append_loop batch columns items j stop tr =
     (if j < stop then
        (if j < 0 \<or> int (length items) \<le> j
         then (Some (Panic ''reflect: slice index out of range''), tr)
         else (case extractValues (Interface_of (items ! nat j)) columns of
                 Inl err \<Rightarrow> (Some (wrap (ExtractFailed j) err), tr)
               | Inr vals \<Rightarrow>
                   (case Append batch tr vals of
                      Some err \<Rightarrow> (Some (AppendFailed (DriverError err)), tr @ [EvAppend vals])
                    | None \<Rightarrow> append_loop batch columns items (j + 1) stop (tr @ [EvAppend vals]))))
      else (None, tr))"
  by pat_completeness auto
termination
  by (relation "measure (\<lambda>(batch, columns, items, j, stop, tr). nat (stop - j))") auto

declare append_loop.simps [simp del]

text \<open>
  The outer loop: \<open>for i := 0; i < dataLen; i += c.batchSize\<close>. With a batch size that
  is not positive the loop need not end, so the result is an option (\<open>None\<close>: no return).
\<close>

partial_function (option) batch_loop ::
  "ClickHouseClient \<Rightarrow> string \<Rightarrow> string list \<Rightarrow> rvalue list \<Rightarrow> int \<Rightarrow> event list
     \<Rightarrow> (error option \<times> event list) option" where
  "batch_loop c tableName columns items i tr =
     (if i < int (length items) then
        (let end0 = wrap64 (i + batchSize c);
             stop = (if end0 > int (length items) then int (length items) else end0)
         in case prepareBatch c tableName columns tr of
              (Inl err, tr1) \<Rightarrow> Some (Some (wrap PrepareFailed err), tr1)
            | (Inr batch, tr1) \<Rightarrow>
                (case append_loop batch columns items i stop tr1 of
                   (Some err, tr2) \<Rightarrow> Some (Some err, tr2)
                 | (None, tr2) \<Rightarrow>
                     (case Send batch tr2 of
                        Some err \<Rightarrow>
                          Some (Some (SendFailed i (wrap64 (stop - 1)) (DriverError err)), tr2 @ [EvSend])
                      | None \<Rightarrow>
                          batch_loop c tableName columns items (wrap64 (i + batchSize c)) (tr2 @ [EvSend]))))
      else Some (None, tr))"

declare batch_loop.simps [code]

definition BatchInsert ::
  "ClickHouseClient \<Rightarrow> string \<Rightarrow> rvalue \<Rightarrow> event list \<Rightarrow> (error option \<times> event list) option" where
  "BatchInsert c tableName data tr =
     (if KindV data \<noteq> Slice then Some (Some DataMustBeSlice, tr)
      else if length (elems data) = 0 then Some (None, tr)
      else (case analyzeStructure (Interface_of (elems data ! 0)) of
              Inl err \<Rightarrow> Some (Some (wrap AnalyzeFailed err), tr)
            | Inr columns \<Rightarrow> batch_loop c tableName columns (elems data) 0 tr))"

section \<open>Table creation\<close>

record Column =
  col_Name :: string
  col_Type :: string

definition Exec :: "ClickHouseClient \<Rightarrow> string \<Rightarrow> event list \<Rightarrow> error option \<times> event list" where
  "Exec c query tr =
     (case conn c of
        None \<Rightarrow> (Some (Panic ''nil pointer dereference''), tr)
      | Some d \<Rightarrow> (map_option DriverError (conn_Exec d tr query), tr @ [EvExec query]))"

text \<open>The search for the \<open>created_at\<close> column, with its \<open>break\<close>.\<close>

fun hasCreatedAt :: "Column list \<Rightarrow> bool" where
  "hasCreatedAt [] = False"
| "hasCreatedAt (col # rest) = (if col_Name col = ''created_at'' then True else hasCreatedAt rest)"

text \<open>The loop that writes the column lines, \<open>",\n"\<close> after all but the last.\<close>

fun write_columns :: "Column list \<Rightarrow> string" where
  "write_columns [] = []"
| "write_columns (col # rest) =
     ''  '' @ col_Name col @ '' '' @ col_Type col
       @ (if rest \<noteq> [] then '','' @ [CHR 0x0A] else []) @ write_columns rest"

definition create_database_stmt :: "string \<Rightarrow> string" where
  "create_database_stmt database = ''CREATE DATABASE IF NOT EXISTS '' @ database @ '' ON CLUSTER bms_cluster''"

definition create_table_stmt :: "string \<Rightarrow> string \<Rightarrow> string \<Rightarrow> string \<Rightarrow> Column list \<Rightarrow> string" where
  "create_table_stmt database table order desc cols =
     ''CREATE TABLE IF NOT EXISTS '' @ database @ ''.'' @ table @ '' ON CLUSTER bms_cluster ('' @ [CHR 0x0A]
     @ write_columns cols
     @ [CHR 0x0A] @ '')'' @ [CHR 0x0A] @ ''ENGINE = ReplicatedMergeTree('' @ [CHR 0x27] @ ''/clickhouse/tables/''
         @ database @ ''/{shard}/'' @ table @ [CHR 0x27] @ '', '' @ [CHR 0x27] @ ''{replica}'' @ [CHR 0x27] @ '')'' @ [CHR 0x0A]
     @ ''PARTITION BY toYYYYMM(created_at)'' @ [CHR 0x0A]
     @ ''ORDER BY ('' @ order @ '', intHash64(created_at))'' @ [CHR 0x0A]
     @ ''SAMPLE BY intHash64(created_at)'' @ [CHR 0x0A]
     @ ''SETTINGS index_granularity = 8192'' @ [CHR 0x0A]
     @ ''COMMENT '' @ [CHR 0x27] @ desc @ [CHR 0x27] @ '';''"

definition CreateTable ::
  "ClickHouseClient \<Rightarrow> string \<Rightarrow> string \<Rightarrow> string \<Rightarrow> string \<Rightarrow> Column list \<Rightarrow> event list
     \<Rightarrow> error option \<times> event list" where
  "CreateTable c database table order desc cols tr =
     (if \<not> hasCreatedAt cols then (Some (CreatedAtRequired database table), tr)
      else (case Exec c (create_database_stmt database) tr of
              (Some err, tr1) \<Rightarrow> (Some err, tr1)
            | (None, tr1) \<Rightarrow> Exec c (create_table_stmt database table order desc cols) tr1))"

definition create_distributed_stmt :: "string \<Rightarrow> string \<Rightarrow> string \<Rightarrow> Column list \<Rightarrow> string" where
  "create_distributed_stmt distDB localTable desc cols =
     ''CREATE TABLE IF NOT EXISTS '' @ distDB @ ''.'' @ (localTable @ ''_distributed'')
       @ '' ON CLUSTER bms_cluster ('' @ [CHR 0x0A]
     @ write_columns cols
     @ [CHR 0x0A] @ '')'' @ [CHR 0x0A] @ ''ENGINE = Distributed('' @ [CHR 0x27] @ ''bms_cluster'' @ [CHR 0x27]
         @ '', '' @ [CHR 0x27] @ distDB @ [CHR 0x27] @ '', '' @ [CHR 0x27] @ localTable @ [CHR 0x27] @ '')'' @ [CHR 0x0A]
     @ ''COMMENT '' @ [CHR 0x27] @ desc @ [CHR 0x27] @ '';''"

definition CreateDistributedTable ::
  "ClickHouseClient \<Rightarrow> string \<Rightarrow> string \<Rightarrow> string \<Rightarrow> Column list \<Rightarrow> event list
     \<Rightarrow> error option \<times> event list" where
  "CreateDistributedTable c distDB localTable desc cols tr =
     (if length cols = 0 then (Some ColumnsRequired, tr)
      else (case Exec c (create_database_stmt distDB) tr of
              (Some err, tr1) \<Rightarrow> (Some err, tr1)
            | (None, tr1) \<Rightarrow> Exec c (create_distributed_stmt distDB localTable desc cols) tr1))"

section \<open>Mapping query results to structs\<close>

text \<open>The zero value of a type (\<open>reflect.New(t).Elem()\<close>).\<close>

fun zero :: "rtype \<Rightarrow> rvalue" where
  "zero (TBasic k) =
     (if k = Invalid then VInvalid
      else if k = Interface then VIface VInvalid
      else if k = Bool then VBasic k (PBool False)
      else if k = String then VBasic k (PString [])
      else if k \<in> {Chan, Func, Map, UnsafePointer} then VBasic k (POpaque [])
      else VBasic k (PNum 0))"
| "zero (TArray n t) = VSeq Array t (replicate n (zero t))"
| "zero (TSlice t) = VSeq Slice t []"
| "zero (TPtr t) = VNil t"
| "zero (TStruct fs) = VStruct (map (\<lambda>ft. (fst ft, zero (snd ft))) fs)"

fun struct_fields :: "rvalue \<Rightarrow> (StructField \<times> rvalue) list" where
  "struct_fields (VStruct fvs) = fvs"
| "struct_fields v = []"

text \<open>
  \<open>findStructField\<close>: the field is given by its index in the struct; \<open>None\<close> is the
  zero \<open>reflect.Value\<close> that the code returns when no field matches.
\<close>

fun findStructField_loop :: "(StructField \<times> rvalue) list \<Rightarrow> string \<Rightarrow> nat \<Rightarrow> nat option" where
  "findStructField_loop [] columnName i = None"
| "findStructField_loop (fv # rest) columnName i =
     (if \<not> IsExported (fst fv) then findStructField_loop rest columnName (i + 1)
      else if getColumnName (fst fv) = columnName then Some i
      else findStructField_loop rest columnName (i + 1))"

definition findStructField :: "rvalue \<Rightarrow> string \<Rightarrow> nat option" where
  "findStructField structValue columnName = findStructField_loop (struct_fields structValue) columnName 0"

text \<open>
  \<open>rows.Scan(scanDest...)\<close> of \<open>database/sql\<close>: the number of targets must be the number
  of values of the row; then each value is converted into its target, in order, and the
  first conversion that fails ends the scan. A target is a field of the new struct
  (\<open>Some\<close> of its index) or the \<open>dummy\<close> interface (\<open>None\<close>), which takes any value.
  The conversion into a field is the library's (\<open>assign\<close>: the field as it is, the
  value, and the field as it becomes or an error).
\<close>

fun scan_loop ::
  "(rvalue \<Rightarrow> rvalue \<Rightarrow> string + rvalue) \<Rightarrow> nat option list \<Rightarrow> rvalue list
     \<Rightarrow> (StructField \<times> rvalue) list \<Rightarrow> string + (StructField \<times> rvalue) list" where
  "scan_loop assign (d # ds) (sv # svs) fvs =
     (case d of
        None \<Rightarrow> scan_loop assign ds svs fvs
      | Some p \<Rightarrow>
          (case assign (snd (fvs ! p)) sv of
             Inl err \<Rightarrow> Inl err
           | Inr v \<Rightarrow> scan_loop assign ds svs (fvs[p := (fst (fvs ! p), v)])))"
| "scan_loop assign ds svs fvs = Inr fvs"

definition Scan ::
  "(rvalue \<Rightarrow> rvalue \<Rightarrow> string + rvalue) \<Rightarrow> nat option list \<Rightarrow> rvalue list
     \<Rightarrow> (StructField \<times> rvalue) list \<Rightarrow> string + (StructField \<times> rvalue) list" where
  "Scan assign dest row fvs =
     (if length dest \<noteq> length row then Inl ''sql: wrong number of destination arguments in Scan''
      else scan_loop assign dest row fvs)"

text \<open>The loop \<open>for rows.Next()\<close> of \<open>QueryToStruct\<close>, over the rows that are delivered.\<close>

fun rows_loop ::
  "(rvalue \<Rightarrow> rvalue \<Rightarrow> string + rvalue) \<Rightarrow> string list \<Rightarrow> bool \<Rightarrow> rtype \<Rightarrow> rvalue list list
     \<Rightarrow> rvalue list \<Rightarrow> string option \<times> rvalue list" where
  "rows_loop assign columns isPtr actualElemType [] sliceValue = (None, sliceValue)"
| "rows_loop assign columns isPtr actualElemType (row # rest) sliceValue =
     (let structValue = zero actualElemType;
          scanDest = map (findStructField structValue) columns
      in case Scan assign scanDest row (struct_fields structValue) of
           Inl err \<Rightarrow> (Some err, sliceValue)
         | Inr fvs \<Rightarrow>
             rows_loop assign columns isPtr actualElemType rest
               (sliceValue @ [if isPtr then VPtr (VStruct fvs) else VStruct fvs]))"

definition Query :: "ClickHouseClient \<Rightarrow> string \<Rightarrow> rvalue list \<Rightarrow> error + rows" where
  "Query c query args =
     (case db c of
        None \<Rightarrow> Inl (Panic ''nil pointer dereference'')
      | Some q \<Rightarrow> (case q query args of Inl err \<Rightarrow> Inl (DriverError err) | Inr rs \<Rightarrow> Inr rs))"

text \<open>
  The conversion that \<open>Scan\<close> applies is a parameter (\<open>assign\<close>). The result is the
  error and the slice that \<open>dest\<close> points to after the call.
\<close>

definition QueryToStruct ::
  "(rvalue \<Rightarrow> rvalue \<Rightarrow> string + rvalue) \<Rightarrow> ClickHouseClient \<Rightarrow> rvalue \<Rightarrow> string \<Rightarrow> rvalue list
     \<Rightarrow> error option \<times> rvalue list" where
  "QueryToStruct assign c dest query args =
     (if KindV dest \<noteq> Pointer \<or> KindV (ElemV dest) \<noteq> Slice
      then (Some DestMustBePtrToSlice, elems (ElemV dest))
      else
        (let sliceValue = ElemV dest;
             elemType = ElemT (type_of sliceValue);
             isPtr = (KindT elemType = Pointer);
             actualElemType = (if isPtr then ElemT elemType else elemType)
         in if KindT actualElemType \<noteq> Struct then (Some ElemsMustBeStructs, elems sliceValue)
            else (case Query c query args of
                    Inl err \<Rightarrow> (Some err, elems sliceValue)
                  | Inr rs \<Rightarrow>
                      (case Columns rs of
                         Inl err \<Rightarrow> (Some (DriverError err), elems sliceValue)
                       | Inr columns \<Rightarrow>
                           (case rows_loop assign columns isPtr actualElemType (delivered rs) (elems sliceValue) of
                              (Some err, sl) \<Rightarrow> (Some (DriverError err), sl)
                            | (None, sl) \<Rightarrow> (map_option DriverError (Err rs), sl))))))"

section \<open>Observations used in the statements\<close>

text \<open>
  A record is a struct or a non-nil pointer to a struct (what \<open>analyzeStructure\<close> and
  \<open>extractValues\<close> dereference).
\<close>

fun record_of :: "rvalue \<Rightarrow> (StructField \<times> rvalue) list option" where
  "record_of (VStruct fvs) = Some fvs"
| "record_of (VPtr (VStruct fvs)) = Some fvs"
| "record_of v = None"

text \<open>
  Read off a trace: the number of tuples appended to each batch that was sent, and the
  tuples appended, in order.
\<close>

fun chunk_sizes :: "event list \<Rightarrow> nat \<Rightarrow> nat list" where
  "chunk_sizes [] n = []"
| "chunk_sizes (EvPrepareBatch sql # es) n = chunk_sizes es 0"
| "chunk_sizes (EvAppend vals # es) n = chunk_sizes es (Suc n)"
| "chunk_sizes (EvSend # es) n = n # chunk_sizes es 0"
| "chunk_sizes (EvExec q # es) n = chunk_sizes es n"

fun appended :: "event list \<Rightarrow> wire list list" where
  "appended [] = []"
| "appended (EvAppend vals # es) = vals # appended es"
| "appended (ev # es) = appended es"

definition expected_sizes :: "nat \<Rightarrow> nat \<Rightarrow> nat list" where
  "expected_sizes n b = replicate (n div b) b @ (if n mod b = 0 then [] else [n mod b])"

section \<open>Example values\<close>

text \<open>
  A record type with a \<open>db\<close> tag, a \<open>json\<close> tag, an untagged field, an excluded field
  and a field that is not exported:
  \<^verbatim>\<open>type Event struct {
    ID     int64  `db:"id,pk" json:"event_id"`
    Email  string `json:"email,omitempty"`
    Age    int
    Secret string `db:"-"`
    hidden int
  }\<close>
\<close>

definition ex_ID :: StructField where
  "ex_ID = \<lparr>Name = ''ID'', PkgPath = [], Tag = [(''db'', ''id,pk''), (''json'', ''event_id'')]\<rparr>"

definition ex_Email :: StructField where
  "ex_Email = \<lparr>Name = ''Email'', PkgPath = [], Tag = [(''json'', ''email,omitempty'')]\<rparr>"

definition ex_Age :: StructField where
  "ex_Age = \<lparr>Name = ''Age'', PkgPath = [], Tag = []\<rparr>"

definition ex_Secret :: StructField where
  "ex_Secret = \<lparr>Name = ''Secret'', PkgPath = [], Tag = [(''db'', ''-'')]\<rparr>"

definition ex_hidden :: StructField where
  "ex_hidden = \<lparr>Name = ''hidden'', PkgPath = ''ckgroup'', Tag = []\<rparr>"

definition ex_event :: "int \<Rightarrow> string \<Rightarrow> (StructField \<times> rvalue) list" where
  "ex_event n mail =
     [(ex_ID, VBasic Int64 (PNum n)), (ex_Email, VBasic String (PString mail)),
      (ex_Age, VBasic Int_kind (PNum 30)), (ex_Secret, VBasic String (PString ''s'')),
      (ex_hidden, VBasic Int_kind (PNum 0))]"

text \<open>A driver on which every call succeeds, and two on which one call fails.\<close>

definition ok_driver :: driver where
  "ok_driver = \<lparr>PrepareBatch = (\<lambda>tr sql. None), Append = (\<lambda>tr vals. None),
                 Send = (\<lambda>tr. None), conn_Exec = (\<lambda>tr q. None)\<rparr>"

text \<open>The third \<open>Append\<close> of a run fails.\<close>

definition append_fails_driver :: driver where
  "append_fails_driver = ok_driver\<lparr>Append := (\<lambda>tr vals. if length (appended tr) = 2 then Some ''boom'' else None)\<rparr>"

text \<open>The second \<open>Send\<close> of a run fails.\<close>

definition send_fails_driver :: driver where
  "send_fails_driver = ok_driver\<lparr>Send := (\<lambda>tr. if length (chunk_sizes tr 0) = 1 then Some ''boom'' else None)\<rparr>"

definition ex_client :: "driver \<Rightarrow> int \<Rightarrow> ClickHouseClient" where
  "ex_client d b = \<lparr>conn = Some d, db = None, batchSize = b\<rparr>"

definition ex_tuple :: "int \<Rightarrow> wire list" where
  "ex_tuple n = [WRaw (VBasic Int64 (PNum n)), WRaw (VBasic String (PString ''m'')), WRaw (VBasic Int_kind (PNum 30))]"

text \<open>A slice of five events.\<close>

definition ex_data :: rvalue where
  "ex_data = VSeq Slice (type_of (VStruct (ex_event 0 [])))
               [VStruct (ex_event 0 ''m''), VStruct (ex_event 1 ''m''), VStruct (ex_event 2 ''m''),
                VStruct (ex_event 3 ''m''), VStruct (ex_event 4 ''m'')]"

text \<open>The package variable \<open>CKCONN\<close> before any client is constructed (its zero value).\<close>

definition CKCONN0 :: ClickHouseClient where
  "CKCONN0 = \<lparr>conn = None, db = None, batchSize = 0\<rparr>"

text \<open>A library whose connections open and answer the ping, and two configurations.\<close>

definition ok_lib :: clickhouse where
  "ok_lib = \<lparr>Open = (\<lambda>addr database username password debug. Inr ok_driver),
             Ping = (\<lambda>cn. None),
             OpenDB = (\<lambda>addr database username password. (\<lambda>query args. Inl ''no rows''))\<rparr>"

definition ex_config :: "int \<Rightarrow> Config" where
  "ex_config b = \<lparr>Hosts = ''h1:9000,h2:9000'', Database = ''d'', Username = ''u'', Password = ''p'',
                   BatchSize = b, Debug = False\<rparr>"

section \<open>The statement shapes of the specification\<close>

text \<open>
  The specification document describes table creation in terms of a table specification
  with a \<open>cluster\<close> field, and gives the statements as shapes over
  \<open><db>\<close>, \<open><table>\<close> and \<open><cluster>\<close>. These definitions follow the document, not
  the code; they are what the statements of the code are compared with.
\<close>

record TableSpec =
  ts_database :: string
  ts_table :: string
  ts_cluster :: string
  ts_ordering_key :: string
  ts_partition_column :: string
  ts_columns :: "Column list"
  ts_description :: string

definition spec_create_database :: "string \<Rightarrow> string \<Rightarrow> string" where
  "spec_create_database database cluster =
     ''CREATE DATABASE IF NOT EXISTS '' @ database @ '' ON CLUSTER '' @ cluster"

definition spec_create_table_head :: "string \<Rightarrow> string \<Rightarrow> string \<Rightarrow> string" where
  "spec_create_table_head database table cluster =
     ''CREATE TABLE IF NOT EXISTS '' @ database @ ''.'' @ table @ '' ON CLUSTER '' @ cluster @ '' (''"

text \<open>
  A table specification reaches the code through the parameters that \<open>CreateTable\<close> and
  \<open>CreateDistributedTable\<close> have: database, table, ordering key, description and columns.
  Neither has a parameter for the cluster or for the partition column.
\<close>

definition createClusteredTable ::
  "ClickHouseClient \<Rightarrow> TableSpec \<Rightarrow> event list \<Rightarrow> error option \<times> event list" where
  "createClusteredTable c spec tr =
     CreateTable c (ts_database spec) (ts_table spec) (ts_ordering_key spec) (ts_description spec)
       (ts_columns spec) tr"

definition createDistributedTable ::
  "ClickHouseClient \<Rightarrow> TableSpec \<Rightarrow> event list \<Rightarrow> error option \<times> event list" where
  "createDistributedTable c spec tr =
     CreateDistributedTable c (ts_database spec) (ts_table spec) (ts_description spec) (ts_columns spec) tr"

text \<open>The table specification of the scenario of the document, on cluster \<open>c\<close>.\<close>

definition ex_spec :: TableSpec where
  "ex_spec = \<lparr>ts_database = ''d'', ts_table = ''t'', ts_cluster = ''c'', ts_ordering_key = ''id'',
              ts_partition_column = ''created_at'',
              ts_columns = [\<lparr>col_Name = ''id'', col_Type = ''UInt64''\<rparr>,
                            \<lparr>col_Name = ''created_at'', col_Type = ''DateTime''\<rparr>],
              ts_description = ''events''\<rparr>"

text \<open>A driver on which every statement fails.\<close>

definition exec_fails_driver :: driver where
  "exec_fails_driver = ok_driver\<lparr>conn_Exec := (\<lambda>tr q. Some ''cluster unreachable'')\<rparr>"

section \<open>Observations on the result mapper\<close>

text \<open>
  What one pass of the loop of \<open>QueryToStruct\<close> makes of a row: the error of \<open>Scan\<close>,
  or the element that is appended to the destination slice.
\<close>

definition bind_row ::
  "(rvalue \<Rightarrow> rvalue \<Rightarrow> string + rvalue) \<Rightarrow> string list \<Rightarrow> bool \<Rightarrow> rtype \<Rightarrow> rvalue list
     \<Rightarrow> string + rvalue" where
  "bind_row assign columns isPtr actualElemType row =
     (case Scan assign (map (findStructField (zero actualElemType)) columns) row
             (struct_fields (zero actualElemType)) of
        Inl err \<Rightarrow> Inl err
      | Inr fvs \<Rightarrow> Inr (if isPtr then VPtr (VStruct fvs) else VStruct fvs))"

text \<open>
  An example: rows of the columns \<open>id\<close>, \<open>name\<close>, \<open>extra_unmapped\<close> are read into
  \<^verbatim>\<open>type User struct {
    ID   int64  `db:"id"`
    Name string `db:"name"`
    Note string
  }\<close>
  The conversion of the example accepts a value of the kind of the field. The third of
  five rows has a string where the \<open>id\<close> is expected.
\<close>

definition ex_User :: rtype where
  "ex_User = TStruct [(\<lparr>Name = ''ID'', PkgPath = [], Tag = [(''db'', ''id'')]\<rparr>, TBasic Int64),
                      (\<lparr>Name = ''Name'', PkgPath = [], Tag = [(''db'', ''name'')]\<rparr>, TBasic String),
                      (\<lparr>Name = ''Note'', PkgPath = [], Tag = []\<rparr>, TBasic String)]"

definition ex_user :: "int \<Rightarrow> string \<Rightarrow> rvalue" where
  "ex_user n name =
     VStruct [(\<lparr>Name = ''ID'', PkgPath = [], Tag = [(''db'', ''id'')]\<rparr>, VBasic Int64 (PNum n)),
              (\<lparr>Name = ''Name'', PkgPath = [], Tag = [(''db'', ''name'')]\<rparr>, VBasic String (PString name)),
              (\<lparr>Name = ''Note'', PkgPath = [], Tag = []\<rparr>, VBasic String (PString []))]"

definition ex_assign :: "rvalue \<Rightarrow> rvalue \<Rightarrow> string + rvalue" where
  "ex_assign field src = (if KindV field = KindV src then Inr src else Inl ''unsupported Scan'')"

definition ex_row :: "int \<Rightarrow> string \<Rightarrow> rvalue list" where
  "ex_row n name = [VBasic Int64 (PNum n), VBasic String (PString name), VBasic Float64 (PNum 0)]"

definition ex_rows :: rows where
  "ex_rows = \<lparr>Columns = Inr [''id'', ''name'', ''extra_unmapped''],
              delivered = [ex_row 1 ''a'', ex_row 2 ''b'',
                           [VBasic String (PString ''x''), VBasic String (PString ''c''), VBasic Float64 (PNum 0)],
                           ex_row 4 ''d'', ex_row 5 ''e''],
              Err = None\<rparr>"

definition ex_query_client :: ClickHouseClient where
  "ex_query_client = \<lparr>conn = None, db = Some (\<lambda>query args. Inr ex_rows), batchSize = 1000\<rparr>"

definition ex_dest :: rvalue where
  "ex_dest = VPtr (VSeq Slice ex_User [])"

lemmas ex_defs = ex_ID_def ex_Email_def ex_Age_def ex_Secret_def ex_hidden_def ex_event_def

section \<open>Column names\<close>

lemma Split_not_Nil: "Split s c \<noteq> []"
  by (induction s) (auto split: list.splits)

lemma hd_Split: "hd (Split s c) = takeWhile (\<lambda>x. x \<noteq> c) s"
  by (induction s) (auto split: list.splits simp: Split_not_Nil)

lemma analyze_loop_eq:
  "analyze_loop fs cols = cols @ map getColumnName (filter (\<lambda>f. IsExported f \<and> getColumnName f \<noteq> ''-'') fs)"
  by (induction fs arbitrary: cols) auto

lemma analyzeStructure_struct:
  "analyzeStructure (VStruct fvs) =
     Inr (map getColumnName (filter (\<lambda>f. IsExported f \<and> getColumnName f \<noteq> ''-'') (map fst fvs)))"
  by (simp add: analyzeStructure_def TypeOf_def analyze_loop_eq comp_def case_prod_unfold)

lemma analyzeStructure_ptr:
  "analyzeStructure (VPtr (VStruct fvs)) =
     Inr (map getColumnName (filter (\<lambda>f. IsExported f \<and> getColumnName f \<noteq> ''-'') (map fst fvs)))"
  by (simp add: analyzeStructure_def TypeOf_def analyze_loop_eq comp_def case_prod_unfold)

lemmas eval_names = getColumnName_def Tag_Get_def ToLower_def lower_char_def IsExported_def

text \<open>
  C5. The column name of a field is the part of its \<open>db\<close> tag before the first comma when
  the tag is not empty, else the part of its \<open>json\<close> tag before the first comma when that
  tag is not empty, else the lower-cased field name. The columns of a struct (or of a
  pointer to it) are the names of its fields in declaration order, leaving out the
  fields that are not exported and those named \<open>-\<close>: a field left out takes no position.
\<close>

theorem column_name_precedence:
  "getColumnName f =
     (if Tag_Get (Tag f) ''db'' \<noteq> [] then takeWhile (\<lambda>x. x \<noteq> CHR '','') (Tag_Get (Tag f) ''db'')
      else if Tag_Get (Tag f) ''json'' \<noteq> [] then takeWhile (\<lambda>x. x \<noteq> CHR '','') (Tag_Get (Tag f) ''json'')
      else ToLower (Name f))
   \<and> analyzeStructure (VStruct fvs) =
       Inr (map getColumnName (filter (\<lambda>f. IsExported f \<and> getColumnName f \<noteq> ''-'') (map fst fvs)))
   \<and> analyzeStructure (VPtr (VStruct fvs)) =
       Inr (map getColumnName (filter (\<lambda>f. IsExported f \<and> getColumnName f \<noteq> ''-'') (map fst fvs)))"
  by (simp add: getColumnName_def hd_Split analyzeStructure_struct analyzeStructure_ptr)

theorem column_name_precedence_witness:
  "getColumnName ex_ID = ''id''
   \<and> analyzeStructure (VStruct (ex_event 7 ''a@b'')) = Inr [''id'', ''email'', ''age'']
   \<and> analyzeStructure (VPtr (VStruct (ex_event 7 ''a@b''))) = Inr [''id'', ''email'', ''age'']"
  using column_name_precedence [of ex_ID "ex_event 7 ''a@b''"]
  by (simp add: ex_defs eval_names)

section \<open>Value conversion never fails\<close>

lemma struct_kind_is_struct:
  "type_of v = t \<Longrightarrow> KindT t = Struct \<Longrightarrow> well_typed v \<Longrightarrow> \<exists>fvs. v = VStruct fvs"
  by (cases v) (auto split: if_splits)

lemma convert_total_aux:
  "well_typed v \<longrightarrow> (\<exists>w. convertValue v = Inr w)"
  "(\<exists>t. KindT t = Struct \<and> well_typed_list t vs) \<longrightarrow> (\<exists>r. convert_elems vs result = Inr r)"
  "well_typed_fields fvs \<longrightarrow> (\<exists>m. convert_fields fvs elemMap = Inr m)"
proof (induction v and vs result and fvs elemMap rule: convertValue_convert_elems_convert_fields.induct)
  case (9 elem rest result)
  show ?case
  proof
    assume "\<exists>t. KindT t = Struct \<and> well_typed_list t (elem # rest)"
    then obtain t where t: "KindT t = Struct" "type_of elem = t" "well_typed elem" "well_typed_list t rest"
      by auto
    then obtain fvs where e: "elem = VStruct fvs"
      using struct_kind_is_struct by blast
    with t have "well_typed_fields fvs" by simp
    with 9(1)[OF e] obtain m where m: "convert_fields fvs [] = Inr m" by blast
    from 9(2)[OF e m] t obtain r where "convert_elems rest (result @ [m]) = Inr r" by blast
    with e m show "\<exists>r. convert_elems (elem # rest) result = Inr r" by simp
  qed
next
  case (11 fv rest elemMap)
  then show ?case by (auto split: sum.splits)
qed (auto split: sum.splits)

lemma convertValue_total: "well_typed v \<Longrightarrow> \<exists>w. convertValue v = Inr w"
  using convert_total_aux(1) by blast

lemma convert_fields_total: "well_typed_fields fvs \<Longrightarrow> \<exists>m. convert_fields fvs elemMap = Inr m"
  using convert_total_aux(3) by blast

text \<open>
  C6. \<open>convertValue\<close> returns a value on every well-typed input, never an error or a
  panic; a value that is no array, slice or pointer (and is valid) is returned as it is.
\<close>

theorem convertValue_never_fails:
  assumes "well_typed v"
  shows "(\<exists>w. convertValue v = Inr w)
       \<and> (KindV v \<notin> {Invalid, Slice, Array, Pointer} \<longrightarrow> convertValue v = Inr (WRaw (Interface_of v)))"
proof
  show "\<exists>w. convertValue v = Inr w" using assms by (rule convertValue_total)
  show "KindV v \<notin> {Invalid, Slice, Array, Pointer} \<longrightarrow> convertValue v = Inr (WRaw (Interface_of v))"
    using assms by (cases v) auto
qed

theorem convertValue_never_fails_witness:
  "well_typed (VStruct (ex_event 7 ''a@b''))
   \<and> (\<exists>w. convertValue (VStruct (ex_event 7 ''a@b'')) = Inr w)
   \<and> convertValue (VStruct (ex_event 7 ''a@b'')) = Inr (WRaw (VStruct (ex_event 7 ''a@b'')))"
proof -
  have h: "well_typed (VStruct (ex_event 7 ''a@b''))" by (simp add: ex_defs)
  show ?thesis using h convertValue_never_fails [OF h] by simp
qed

lemma convert_fields_keys:
  "convert_fields fvs m = Inr m' \<Longrightarrow>
   fst ` set m' = fst ` set m \<union> getColumnName ` {f \<in> fst ` set fvs. IsExported f \<and> getColumnName f \<noteq> ''-''}"
proof (induction fvs arbitrary: m)
  case Nil
  then show ?case by simp
next
  case (Cons fv rest)
  show ?case
  proof (cases "IsExported (fst fv) \<and> getColumnName (fst fv) \<noteq> ''-''")
    case True
    with Cons.prems obtain w where w: "convertValue (snd fv) = Inr w"
      and r: "convert_fields rest (AList.update (getColumnName (fst fv)) w m) = Inr m'"
      by (auto split: sum.splits)
    from Cons.IH[OF r] True show ?thesis
      by (auto simp: dom_update)
  next
    case False
    with Cons.prems have "convert_fields rest m = Inr m'" by (auto split: if_splits)
    from Cons.IH[OF this] False show ?thesis by auto
  qed
qed

lemma convert_fields_distinct:
  "convert_fields fvs m = Inr m' \<Longrightarrow> distinct (map fst m) \<Longrightarrow> distinct (map fst m')"
proof (induction fvs arbitrary: m)
  case Nil
  then show ?case by simp
next
  case (Cons fv rest)
  then show ?case
    by (auto split: if_splits sum.splits simp: distinct_update)
qed

lemma set_update_subset: "set (AList.update k v al) \<subseteq> insert (k, v) (set al)"
  by (induction al) auto

lemma convert_fields_values:
  "convert_fields fvs m = Inr m' \<Longrightarrow> (name, w) \<in> set m' \<Longrightarrow>
   (name, w) \<in> set m \<or> (\<exists>fv \<in> set fvs. IsExported (fst fv) \<and> getColumnName (fst fv) = name \<and> convertValue (snd fv) = Inr w)"
proof (induction fvs arbitrary: m)
  case Nil
  then show ?case by simp
next
  case (Cons fv rest)
  show ?case
  proof (cases "IsExported (fst fv) \<and> getColumnName (fst fv) \<noteq> ''-''")
    case True
    with Cons.prems obtain w0 where w0: "convertValue (snd fv) = Inr w0"
      and r: "convert_fields rest (AList.update (getColumnName (fst fv)) w0 m) = Inr m'"
      by (auto split: sum.splits)
    from Cons.IH[OF r Cons.prems(2)] show ?thesis
    proof
      assume "(name, w) \<in> set (AList.update (getColumnName (fst fv)) w0 m)"
      with set_update_subset have "(name, w) = (getColumnName (fst fv), w0) \<or> (name, w) \<in> set m"
        by fastforce
      with w0 True show ?thesis by auto
    next
      assume "\<exists>fv\<in>set rest. IsExported (fst fv) \<and> getColumnName (fst fv) = name \<and> convertValue (snd fv) = Inr w"
      then show ?thesis by auto
    qed
  next
    case False
    with Cons.prems have "convert_fields rest m = Inr m'" by (auto split: if_splits)
    from Cons.IH[OF this Cons.prems(2)] show ?thesis by auto
  qed
qed

lemma convert_elems_shape:
  "convert_elems vs result = Inr r \<Longrightarrow>
   \<exists>ms. r = result @ ms \<and> length ms = length vs
     \<and> (\<forall>i<length vs. vs ! i = VStruct (struct_fields (vs ! i))
            \<and> convert_fields (struct_fields (vs ! i)) [] = Inr (ms ! i))"
proof (induction vs arbitrary: result)
  case Nil
  then show ?case by simp
next
  case (Cons elem rest)
  from Cons.prems obtain fvs m where e: "elem = VStruct fvs" and m: "convert_fields fvs [] = Inr m"
    and r: "convert_elems rest (result @ [m]) = Inr r"
    by (auto split: rvalue.splits sum.splits)
  from Cons.IH[OF r] obtain ms where ms: "r = (result @ [m]) @ ms" "length ms = length rest"
    "\<forall>i<length rest. rest ! i = VStruct (struct_fields (rest ! i))
        \<and> convert_fields (struct_fields (rest ! i)) [] = Inr (ms ! i)"
    by blast
  have "\<forall>i<length (elem # rest). (elem # rest) ! i = VStruct (struct_fields ((elem # rest) ! i))
        \<and> convert_fields (struct_fields ((elem # rest) ! i)) [] = Inr ((m # ms) ! i)"
  proof (intro allI impI)
    fix i assume "i < length (elem # rest)"
    then show "(elem # rest) ! i = VStruct (struct_fields ((elem # rest) ! i))
        \<and> convert_fields (struct_fields ((elem # rest) ! i)) [] = Inr ((m # ms) ! i)"
      using e m ms(3) by (cases i) auto
  qed
  with ms(1,2) show ?case
    by (intro exI[of _ "m # ms"]) simp
qed

lemma extract_loop_shape:
  assumes "well_typed_fields fvs"
    and "columnIndex + length (filter (\<lambda>fv. IsExported (fst fv) \<and> getColumnName (fst fv) \<noteq> ''-'') fvs) \<le> length columns"
  shows "\<exists>ws. extract_loop fvs columns vals columnIndex = Inr (vals @ ws)
           \<and> length ws = length (filter (\<lambda>fv. IsExported (fst fv) \<and> getColumnName (fst fv) \<noteq> ''-'') fvs)
           \<and> (\<forall>i<length ws. convertValue (snd (filter (\<lambda>fv. IsExported (fst fv) \<and> getColumnName (fst fv) \<noteq> ''-'') fvs ! i)) = Inr (ws ! i))"
  using assms
proof (induction fvs arbitrary: vals columnIndex)
  case Nil
  then show ?case by simp
next
  case (Cons fv rest)
  let ?keep = "\<lambda>fv. IsExported (fst fv) \<and> getColumnName (fst fv) \<noteq> ''-''"
  show ?case
  proof (cases "?keep fv")
    case False
    with Cons.prems have "well_typed_fields rest" "columnIndex + length (filter ?keep rest) \<le> length columns"
      by auto
    from Cons.IH[OF this, of vals] False show ?thesis by auto
  next
    case True
    with Cons.prems have wt: "well_typed (snd fv)" "well_typed_fields rest"
      and le: "Suc columnIndex + length (filter ?keep rest) \<le> length columns"
      by auto
    from wt(1) obtain w where w: "convertValue (snd fv) = Inr w"
      using convertValue_total by blast
    from Cons.IH[OF wt(2) le, of "vals @ [w]"] obtain ws where
      ws: "extract_loop rest columns (vals @ [w]) (Suc columnIndex) = Inr ((vals @ [w]) @ ws)"
        "length ws = length (filter ?keep rest)"
        "\<forall>i<length ws. convertValue (snd (filter ?keep rest ! i)) = Inr (ws ! i)"
      by blast
    have lt: "columnIndex < length columns" using le by simp
    have "\<forall>i<length (w # ws). convertValue (snd (filter ?keep (fv # rest) ! i)) = Inr ((w # ws) ! i)"
    proof (intro allI impI)
      fix i assume "i < length (w # ws)"
      then show "convertValue (snd (filter ?keep (fv # rest) ! i)) = Inr ((w # ws) ! i)"
        using True w ws(3) by (cases i) auto
    qed
    with True w ws(1,2) lt show ?thesis
      by (intro exI[of _ "w # ws"]) simp
  qed
qed

lemma extractValues_struct: "extractValues (VStruct fvs) columns = extract_loop fvs columns [] 0"
  by (simp add: extractValues_def TypeOf_def)

lemma extractValues_ptr: "extractValues (VPtr (VStruct fvs)) columns = extract_loop fvs columns [] 0"
  by (simp add: extractValues_def TypeOf_def)

lemma record_of_cases:
  "record_of v = Some fvs \<Longrightarrow> v = VStruct fvs \<or> v = VPtr (VStruct fvs)"
  by (induction v rule: record_of.induct) auto

lemma same_type_same_fields:
  "type_of (VStruct fvs) = type_of (VStruct fvs0) \<Longrightarrow> map fst fvs = map fst fvs0"
proof -
  assume "type_of (VStruct fvs) = type_of (VStruct fvs0)"
  then have "map fst (map (\<lambda>(f, v). (f, type_of v)) fvs) = map fst (map (\<lambda>(f, v). (f, type_of v)) fvs0)"
    by simp
  then show ?thesis by (simp add: comp_def case_prod_unfold)
qed

lemma well_typed_Interface_of: "well_typed x \<Longrightarrow> well_typed (Interface_of x)"
  by (cases x) auto

lemma filter_fst: "map fst (filter (\<lambda>fv. P (fst fv)) fvs) = filter P (map fst fvs)"
  by (induction fvs) auto


text \<open>
  C7. A field holding an array or slice of structs converts to a list of maps, one per
  element and in the same order; the keys of the map of an element are exactly the
  columns that \<open>analyzeStructure\<close> gives for that element, and every entry holds the
  converted value of an exported field with that column name. An empty array or slice
  converts to the empty \<open>[]interface{}{}\<close>, not to \<open>nil\<close>. (A non-empty array or
  slice of anything else, pointers to structs included, is returned as it is.)
\<close>

theorem nested_records_to_maps:
  assumes "well_typed (VSeq k t vs)"
  shows "(vs = [] \<longrightarrow> convertValue (VSeq k t vs) = Inr WEmpty)
       \<and> (vs \<noteq> [] \<and> KindT t = Struct \<longrightarrow>
            (\<exists>ms. convertValue (VSeq k t vs) = Inr (WMaps ms) \<and> length ms = length vs
               \<and> (\<forall>i<length vs. \<exists>columns.
                     analyzeStructure (vs ! i) = Inr columns
                   \<and> fst ` set (ms ! i) = set columns
                   \<and> distinct (map fst (ms ! i))
                   \<and> (\<forall>entry \<in> set (ms ! i). \<exists>fv \<in> set (struct_fields (vs ! i)).
                         IsExported (fst fv) \<and> getColumnName (fst fv) = fst entry
                       \<and> convertValue (snd fv) = Inr (snd entry)))))
       \<and> (vs \<noteq> [] \<and> KindT t \<noteq> Struct \<longrightarrow>
            convertValue (VSeq k t vs) = Inr (WRaw (VSeq k t vs)))"
proof (intro conjI impI)
  assume "vs = []"
  with assms(1) show "convertValue (VSeq k t vs) = Inr WEmpty" by auto
next
  assume b: "vs \<noteq> [] \<and> KindT t = Struct"
  then have ne: "vs \<noteq> []" and st: "KindT t = Struct" by simp_all
  from assms have k: "k = Slice \<or> k = Array" and wl: "well_typed_list t vs" by auto
  from convert_total_aux(2)[of vs "[]"] st wl obtain r where r: "convert_elems vs [] = Inr r"
    by blast
  from convert_elems_shape[OF r] obtain ms where ms: "r = ms" "length ms = length vs"
    "\<forall>i<length vs. vs ! i = VStruct (struct_fields (vs ! i))
        \<and> convert_fields (struct_fields (vs ! i)) [] = Inr (ms ! i)"
    by auto
  have cv: "convertValue (VSeq k t vs) = Inr (WMaps ms)"
    using k ne st r ms(1) by auto
  have "\<forall>i<length vs. \<exists>columns.
          analyzeStructure (vs ! i) = Inr columns
        \<and> fst ` set (ms ! i) = set columns
        \<and> distinct (map fst (ms ! i))
        \<and> (\<forall>entry \<in> set (ms ! i). \<exists>fv \<in> set (struct_fields (vs ! i)).
              IsExported (fst fv) \<and> getColumnName (fst fv) = fst entry
            \<and> convertValue (snd fv) = Inr (snd entry))"
  proof (intro allI impI)
    fix i assume i: "i < length vs"
    define fvs where "fvs = struct_fields (vs ! i)"
    from ms(3) i have e: "vs ! i = VStruct fvs" and cf: "convert_fields fvs [] = Inr (ms ! i)"
      by (auto simp: fvs_def)
    let ?columns = "map getColumnName (filter (\<lambda>f. IsExported f \<and> getColumnName f \<noteq> ''-'') (map fst fvs))"
    have a: "analyzeStructure (vs ! i) = Inr ?columns"
      using e analyzeStructure_struct by simp
    have keys: "fst ` set (ms ! i) = set ?columns"
      using convert_fields_keys[OF cf] by auto
    have d: "distinct (map fst (ms ! i))"
      using convert_fields_distinct[OF cf] by simp
    have vals: "\<forall>entry \<in> set (ms ! i). \<exists>fv \<in> set fvs.
              IsExported (fst fv) \<and> getColumnName (fst fv) = fst entry
            \<and> convertValue (snd fv) = Inr (snd entry)"
    proof
      fix entry assume "entry \<in> set (ms ! i)"
      then have "(fst entry, snd entry) \<in> set (ms ! i)" by simp
      from convert_fields_values[OF cf this]
      show "\<exists>fv \<in> set fvs. IsExported (fst fv) \<and> getColumnName (fst fv) = fst entry
            \<and> convertValue (snd fv) = Inr (snd entry)" by simp
    qed
    show "\<exists>columns.
          analyzeStructure (vs ! i) = Inr columns
        \<and> fst ` set (ms ! i) = set columns
        \<and> distinct (map fst (ms ! i))
        \<and> (\<forall>entry \<in> set (ms ! i). \<exists>fv \<in> set (struct_fields (vs ! i)).
              IsExported (fst fv) \<and> getColumnName (fst fv) = fst entry
            \<and> convertValue (snd fv) = Inr (snd entry))"
      using a keys d vals unfolding fvs_def by blast
  qed
  with cv ms(2) show "\<exists>ms. convertValue (VSeq k t vs) = Inr (WMaps ms) \<and> length ms = length vs
               \<and> (\<forall>i<length vs. \<exists>columns.
                     analyzeStructure (vs ! i) = Inr columns
                   \<and> fst ` set (ms ! i) = set columns
                   \<and> distinct (map fst (ms ! i))
                   \<and> (\<forall>entry \<in> set (ms ! i). \<exists>fv \<in> set (struct_fields (vs ! i)).
                         IsExported (fst fv) \<and> getColumnName (fst fv) = fst entry
                       \<and> convertValue (snd fv) = Inr (snd entry)))"
    by blast
next
  assume "vs \<noteq> [] \<and> KindT t \<noteq> Struct"
  with assms show "convertValue (VSeq k t vs) = Inr (WRaw (VSeq k t vs))" by auto
qed

theorem nested_records_to_maps_witness:
  "well_typed (VSeq Slice (type_of (VStruct (ex_event 0 []))) [VStruct (ex_event 1 ''a''), VStruct (ex_event 2 ''b'')])
   \<and> KindT (type_of (VStruct (ex_event 0 []))) = Struct
   \<and> (\<exists>ms. convertValue (VSeq Slice (type_of (VStruct (ex_event 0 []))) [VStruct (ex_event 1 ''a''), VStruct (ex_event 2 ''b'')])
              = Inr (WMaps ms) \<and> length ms = 2
           \<and> fst ` set (ms ! 1) = {''id'', ''email'', ''age''})"
proof -
  let ?t = "type_of (VStruct (ex_event 0 []))"
  let ?vs = "[VStruct (ex_event 1 ''a''), VStruct (ex_event 2 ''b'')]"
  have h1: "well_typed (VSeq Slice ?t ?vs)" by (simp add: ex_defs)
  have h2: "KindT ?t = Struct" by simp
  have h3: "?vs \<noteq> []" by simp
  from nested_records_to_maps[OF h1] h2 h3 obtain ms where
    ms: "convertValue (VSeq Slice ?t ?vs) = Inr (WMaps ms)" "length ms = length ?vs"
    "\<forall>i<length ?vs. \<exists>columns. analyzeStructure (?vs ! i) = Inr columns \<and> fst ` set (ms ! i) = set columns
        \<and> distinct (map fst (ms ! i))
        \<and> (\<forall>entry \<in> set (ms ! i). \<exists>fv \<in> set (struct_fields (?vs ! i)).
              IsExported (fst fv) \<and> getColumnName (fst fv) = fst entry
            \<and> convertValue (snd fv) = Inr (snd entry))"
    by auto
  from ms(3) obtain columns where "analyzeStructure (?vs ! 1) = Inr columns" "fst ` set (ms ! 1) = set columns"
    by force
  moreover have "analyzeStructure (?vs ! 1) = Inr [''id'', ''email'', ''age'']"
    by (simp add: analyzeStructure_struct ex_defs eval_names)
  ultimately have "fst ` set (ms ! 1) = {''id'', ''email'', ''age''}" by auto
  with h1 h2 ms(1,2) show ?thesis by auto
qed

section \<open>Tuples and columns\<close>

lemma extract_aligned:
  assumes "record_of (Interface_of (items ! 0)) = Some fvs0"
    and "j < length items"
    and "record_of (Interface_of (items ! j)) = Some fvs"
    and "type_of (VStruct fvs) = type_of (VStruct fvs0)"
    and "well_typed (items ! j)"
  shows "\<exists>vals.
           analyzeStructure (Interface_of (items ! 0))
             = Inr (map getColumnName (filter (\<lambda>f. IsExported f \<and> getColumnName f \<noteq> ''-'') (map fst fvs0)))
         \<and> extractValues (Interface_of (items ! j))
              (map getColumnName (filter (\<lambda>f. IsExported f \<and> getColumnName f \<noteq> ''-'') (map fst fvs0))) = Inr vals
         \<and> length vals = length (map getColumnName (filter (\<lambda>f. IsExported f \<and> getColumnName f \<noteq> ''-'') (map fst fvs0)))
         \<and> (\<forall>i<length (map getColumnName (filter (\<lambda>f. IsExported f \<and> getColumnName f \<noteq> ''-'') (map fst fvs0))). \<exists>f v.
               filter (\<lambda>fv. IsExported (fst fv) \<and> getColumnName (fst fv) \<noteq> ''-'') fvs ! i = (f, v)
             \<and> map getColumnName (filter (\<lambda>f. IsExported f \<and> getColumnName f \<noteq> ''-'') (map fst fvs0)) ! i = getColumnName f
             \<and> convertValue v = Inr (vals ! i))"
proof -
  let ?keep = "\<lambda>fv. IsExported (fst fv) \<and> getColumnName (fst fv) \<noteq> ''-''"
  let ?cols = "map getColumnName (filter (\<lambda>f. IsExported f \<and> getColumnName f \<noteq> ''-'') (map fst fvs0))"
  have a: "analyzeStructure (Interface_of (items ! 0)) = Inr ?cols"
    using record_of_cases[OF assms(1)] analyzeStructure_struct analyzeStructure_ptr by auto
  have same: "map fst fvs = map fst fvs0" using assms(4) by (rule same_type_same_fields)
  have cols: "?cols = map (getColumnName \<circ> fst) (filter ?keep fvs)"
  proof -
    have "filter (\<lambda>f. IsExported f \<and> getColumnName f \<noteq> ''-'') (map fst fvs0) = map fst (filter ?keep fvs)"
      using same filter_fst[of "\<lambda>f. IsExported f \<and> getColumnName f \<noteq> ''-''" fvs] by simp
    then show ?thesis by (simp only: map_map)
  qed
  have wt: "well_typed_fields fvs"
    using record_of_cases[OF assms(3)] well_typed_Interface_of[OF assms(5)] by auto
  have e: "extractValues (Interface_of (items ! j)) ?cols = extract_loop fvs ?cols [] 0"
    using record_of_cases[OF assms(3)] extractValues_struct extractValues_ptr by auto
  have "0 + length (filter ?keep fvs) \<le> length ?cols" using cols by simp
  from extract_loop_shape[OF wt this, of "[]"] obtain ws where
    ws: "extract_loop fvs ?cols [] 0 = Inr ws" "length ws = length (filter ?keep fvs)"
      "\<forall>i<length ws. convertValue (snd (filter ?keep fvs ! i)) = Inr (ws ! i)"
    by auto
  have len: "length ws = length ?cols" using ws(2) cols by simp
  have "\<forall>i<length ?cols. \<exists>f v. filter ?keep fvs ! i = (f, v)
             \<and> ?cols ! i = getColumnName f \<and> convertValue v = Inr (ws ! i)"
  proof (intro allI impI)
    fix i assume i: "i < length ?cols"
    then have i': "i < length (filter ?keep fvs)" using cols by simp
    obtain f v where fv: "filter ?keep fvs ! i = (f, v)" by (cases "filter ?keep fvs ! i")
    have "?cols ! i = getColumnName f" using cols i' fv by simp
    moreover have "convertValue v = Inr (ws ! i)" using ws(3) i' ws(2) fv by auto
    ultimately show "\<exists>f v. filter ?keep fvs ! i = (f, v)
             \<and> ?cols ! i = getColumnName f \<and> convertValue v = Inr (ws ! i)"
      using fv by blast
  qed
  with a e ws(1) len show ?thesis by (intro exI[of _ ws]) simp
qed

section \<open>Batch insertion: chunks\<close>

lemma wrap64_id: "- (2 ^ 63) \<le> x \<Longrightarrow> x < 2 ^ 63 \<Longrightarrow> wrap64 x = x"
  by (simp add: wrap64_def)

lemma batch_loop_step:
  assumes "conn c = Some d" and "i < int (length items)"
  shows "batch_loop c tn cols items i tr =
     (let stop = (if wrap64 (i + batchSize c) > int (length items) then int (length items) else wrap64 (i + batchSize c));
          sql = ''INSERT INTO '' @ tn @ '' ('' @ Join cols '', '' @ '')''
      in case PrepareBatch d tr sql of
           Some err \<Rightarrow> Some (Some (PrepareFailed (DriverError err)), tr @ [EvPrepareBatch sql])
         | None \<Rightarrow>
            (case append_loop d cols items i stop (tr @ [EvPrepareBatch sql]) of
               (Some err, tr2) \<Rightarrow> Some (Some err, tr2)
             | (None, tr2) \<Rightarrow>
                 (case Send d tr2 of
                    Some err \<Rightarrow> Some (Some (SendFailed i (wrap64 (stop - 1)) (DriverError err)), tr2 @ [EvSend])
                  | None \<Rightarrow> batch_loop c tn cols items (wrap64 (i + batchSize c)) (tr2 @ [EvSend]))))"
  using assms
  by (subst batch_loop.simps) (simp add: prepareBatch_def Let_def split: option.splits)

lemma batch_loop_done: "\<not> i < int (length items) \<Longrightarrow> batch_loop c tn cols items i tr = Some (None, tr)"
  by (subst batch_loop.simps) simp

lemma append_loop_success:
  "append_loop d cols items j stop tr = (None, tr') \<Longrightarrow> 0 \<le> j \<Longrightarrow> j \<le> stop \<Longrightarrow>
   \<exists>ts. tr' = tr @ map EvAppend ts \<and> length ts = nat (stop - j)
      \<and> (\<forall>k<length ts. extractValues (Interface_of (items ! (nat j + k))) cols = Inr (ts ! k))"
proof (induction d cols items j stop tr rule: append_loop.induct)
  case (1 batch columns items j stop tr)
  show ?case
  proof (cases "j < stop")
    case False
    with "1.prems" show ?thesis by (simp add: append_loop.simps)
  next
    case True
    from True "1.prems"(1) have inr: "\<not> (j < 0 \<or> int (length items) \<le> j)"
      by (subst (asm) append_loop.simps) (auto split: if_splits)
    with True "1.prems"(1) obtain vals where
      v: "extractValues (Interface_of (items ! nat j)) columns = Inr vals"
      and a: "Append batch tr vals = None"
      and r: "append_loop batch columns items (j + 1) stop (tr @ [EvAppend vals]) = (None, tr')"
      by (subst (asm) append_loop.simps) (auto split: sum.splits option.splits if_splits)
    from "1.IH"[OF True inr v a r] True "1.prems" obtain ts where
      ts: "tr' = (tr @ [EvAppend vals]) @ map EvAppend ts" "length ts = nat (stop - (j + 1))"
        "\<forall>k<length ts. extractValues (Interface_of (items ! (nat (j + 1) + k))) columns = Inr (ts ! k)"
      by auto
    have "\<forall>k<length (vals # ts). extractValues (Interface_of (items ! (nat j + k))) columns = Inr ((vals # ts) ! k)"
    proof (intro allI impI)
      fix k assume "k < length (vals # ts)"
      then show "extractValues (Interface_of (items ! (nat j + k))) columns = Inr ((vals # ts) ! k)"
      proof (cases k)
        case 0
        with v show ?thesis by simp
      next
        case (Suc k')
        with \<open>k < length (vals # ts)\<close> have "k' < length ts" by simp
        with ts(3) have "extractValues (Interface_of (items ! (nat (j + 1) + k'))) columns = Inr (ts ! k')" by blast
        moreover have "nat (j + 1) + k' = nat j + k" using Suc "1.prems"(2) by simp
        ultimately show ?thesis using Suc by simp
      qed
    qed
    moreover have "length (vals # ts) = nat (stop - j)" using ts(2) True by simp
    ultimately show ?thesis using ts(1) by (intro exI[of _ "vals # ts"]) simp
  qed
qed

lemma chunk_sizes_appends: "chunk_sizes (map EvAppend ts @ es) n = chunk_sizes es (n + length ts)"
  by (induction ts arbitrary: n) auto

lemma appended_appends: "appended (map EvAppend ts @ es) = ts @ appended es"
  by (induction ts) auto

lemma expected_sizes_full: "0 < b \<Longrightarrow> b \<le> n \<Longrightarrow> expected_sizes n b = b # expected_sizes (n - b) b"
  by (simp add: expected_sizes_def le_div_geq le_mod_geq)

lemma expected_sizes_last: "0 < n \<Longrightarrow> n < b \<Longrightarrow> expected_sizes n b = [n]"
  by (simp add: expected_sizes_def)

lemma expected_sizes_0: "expected_sizes 0 b = []"
  by (simp add: expected_sizes_def)

lemma tuples_take:
  assumes "length ts = k" and "nat j + k \<le> length items"
    and "\<forall>q<length ts. extractValues (Interface_of (items ! (nat j + q))) cols = Inr (ts ! q)"
  shows "map Inr ts = map (\<lambda>x. extractValues (Interface_of x) cols) (take k (drop (nat j) items))"
proof (rule nth_equalityI)
  show "length (map Inr ts) = length (map (\<lambda>x. extractValues (Interface_of x) cols) (take k (drop (nat j) items)))"
    using assms(1,2) by simp
next
  fix q assume "q < length (map Inr ts)"
  then have q: "q < length ts" by simp
  with assms(1,2) have "take k (drop (nat j) items) ! q = items ! (nat j + q)" by simp
  with q assms show "map Inr ts ! q = map (\<lambda>x. extractValues (Interface_of x) cols) (take k (drop (nat j) items)) ! q"
    by simp
qed

lemma batch_loop_success:
  assumes c: "conn c = Some d" and B: "0 < batchSize c" "batchSize c < 2 ^ 63"
    and N: "int (length items) < 2 ^ 62"
  shows "batch_loop c tn cols items i tr = Some (None, tr') \<Longrightarrow> 0 \<le> i \<Longrightarrow> i = 0 \<or> batchSize c \<le> i \<Longrightarrow>
     \<exists>evs. tr' = tr @ evs
        \<and> chunk_sizes evs 0 = expected_sizes (nat (int (length items) - i)) (nat (batchSize c))
        \<and> map Inr (appended evs) = map (\<lambda>x. extractValues (Interface_of x) cols) (drop (nat i) items)"
proof (induction "nat (int (length items) - i)" arbitrary: i tr rule: less_induct)
  case less
  let ?N = "int (length items)"
  let ?B = "batchSize c"
  show ?case
  proof (cases "i < ?N")
    case False
    with less.prems(1) have "tr' = tr" by (simp add: batch_loop_done)
    moreover from False have "nat (?N - i) = 0" "drop (nat i) items = []" by auto
    ultimately show ?thesis by (intro exI[of _ "[]"]) (simp add: expected_sizes_0)
  next
    case True
    have sum_lt: "i + ?B < 2 ^ 63"
    proof (cases "i = 0")
      case True
      then show ?thesis using B by simp
    next
      case False
      with less.prems(3) have "?B \<le> i" by simp
      with \<open>i < ?N\<close> N show ?thesis by simp
    qed
    have w: "wrap64 (i + ?B) = i + ?B"
      using sum_lt less.prems(2) B by (intro wrap64_id) auto
    define stop where "stop = (if i + ?B > ?N then ?N else i + ?B)"
    define sql where "sql = ''INSERT INTO '' @ tn @ '' ('' @ Join cols '', '' @ '')''"
    have stop_bounds: "i < stop" "stop \<le> ?N" using True B by (auto simp: stop_def)
    from less.prems(1) obtain tr2 where
      p: "PrepareBatch d tr sql = None"
      and a: "append_loop d cols items i stop (tr @ [EvPrepareBatch sql]) = (None, tr2)"
      and s: "Send d tr2 = None"
      and r: "batch_loop c tn cols items (i + ?B) (tr2 @ [EvSend]) = Some (None, tr')"
      unfolding batch_loop_step[OF c True] w stop_def sql_def Let_def
      by (auto split: option.splits prod.splits)
    from append_loop_success[OF a less.prems(2)] stop_bounds obtain ts where
      ts: "tr2 = (tr @ [EvPrepareBatch sql]) @ map EvAppend ts" "length ts = nat (stop - i)"
        "\<forall>k<length ts. extractValues (Interface_of (items ! (nat i + k))) cols = Inr (ts ! k)"
      by auto
    have "nat (?N - (i + ?B)) < nat (?N - i)" using True B by simp
    from less.hyps[OF this r] less.prems(2) B obtain evs' where
      evs': "tr' = (tr2 @ [EvSend]) @ evs'"
        "chunk_sizes evs' 0 = expected_sizes (nat (?N - (i + ?B))) (nat ?B)"
        "map Inr (appended evs') = map (\<lambda>x. extractValues (Interface_of x) cols) (drop (nat (i + ?B)) items)"
      by auto
    let ?evs = "EvPrepareBatch sql # map EvAppend ts @ EvSend # evs'"
    have tr': "tr' = tr @ ?evs" using evs'(1) ts(1) by simp
    have sizes: "chunk_sizes ?evs 0 = expected_sizes (nat (?N - i)) (nat ?B)"
    proof (cases "i + ?B > ?N")
      case True
      then have "stop = ?N" by (simp add: stop_def)
      with ts(2) have l: "length ts = nat (?N - i)" by simp
      have "expected_sizes (nat (?N - i)) (nat ?B) = [nat (?N - i)]"
        using True \<open>i < ?N\<close> by (intro expected_sizes_last) auto
      moreover have "nat (?N - (i + ?B)) = 0" using True by simp
      ultimately show ?thesis using evs'(2) l
        by (simp add: chunk_sizes_appends expected_sizes_0)
    next
      case False
      then have "stop = i + ?B" by (simp add: stop_def)
      with ts(2) have l: "length ts = nat ?B" by simp
      have "expected_sizes (nat (?N - i)) (nat ?B) = nat ?B # expected_sizes (nat (?N - i) - nat ?B) (nat ?B)"
        using False B by (intro expected_sizes_full) auto
      moreover have "nat (?N - i) - nat ?B = nat (?N - (i + ?B))" using False B less.prems(2) by simp
      ultimately show ?thesis using evs'(2) l
        by (simp add: chunk_sizes_appends)
    qed
    have k: "nat i + nat (stop - i) \<le> length items" using stop_bounds less.prems(2) by simp
    have t1: "map Inr ts = map (\<lambda>x. extractValues (Interface_of x) cols) (take (nat (stop - i)) (drop (nat i) items))"
      using tuples_take[OF ts(2) k ts(3)] .
    have split: "drop (nat i) items = take (nat (stop - i)) (drop (nat i) items) @ drop (nat (i + ?B)) items"
    proof (cases "i + ?B > ?N")
      case True
      then have "stop = ?N" by (simp add: stop_def)
      then have "take (nat (stop - i)) (drop (nat i) items) = drop (nat i) items"
        using less.prems(2) by simp
      moreover have "drop (nat (i + ?B)) items = []" using True by simp
      ultimately show ?thesis by simp
    next
      case False
      then have "stop = i + ?B" by (simp add: stop_def)
      then have e: "nat (i + ?B) = nat (stop - i) + nat i" using less.prems(2) B by simp
      show ?thesis by (simp only: e drop_drop[symmetric] append_take_drop_id)
    qed
    have "map Inr (appended ?evs) = map Inr ts @ map Inr (appended evs')"
      by (simp add: appended_appends)
    also have "\<dots> = map (\<lambda>x. extractValues (Interface_of x) cols) (take (nat (stop - i)) (drop (nat i) items) @ drop (nat (i + ?B)) items)"
      using t1 evs'(3) by simp
    also have "\<dots> = map (\<lambda>x. extractValues (Interface_of x) cols) (drop (nat i) items)"
      using split by simp
    finally show ?thesis using tr' sizes by blast
  qed
qed

lemma batch_loop_terminates:
  assumes c: "conn c = Some d" and B: "0 < batchSize c" "batchSize c < 2 ^ 63"
    and N: "int (length items) < 2 ^ 62"
  shows "0 \<le> i \<Longrightarrow> i = 0 \<or> batchSize c \<le> i \<Longrightarrow> \<exists>r. batch_loop c tn cols items i tr = Some r"
proof (induction "nat (int (length items) - i)" arbitrary: i tr rule: less_induct)
  case less
  let ?N = "int (length items)"
  let ?B = "batchSize c"
  show ?case
  proof (cases "i < ?N")
    case False
    then show ?thesis by (simp add: batch_loop_done)
  next
    case True
    have sum_lt: "i + ?B < 2 ^ 63"
    proof (cases "i = 0")
      case True
      then show ?thesis using B by simp
    next
      case False
      with less.prems(2) have "?B \<le> i" by simp
      with \<open>i < ?N\<close> N show ?thesis by simp
    qed
    have w: "wrap64 (i + ?B) = i + ?B"
      using sum_lt less.prems(1) B by (intro wrap64_id) auto
    have "nat (?N - (i + ?B)) < nat (?N - i)" using True B by simp
    from less.hyps[OF this] less.prems(1) B
    have ih: "\<And>tr. \<exists>r. batch_loop c tn cols items (i + ?B) tr = Some r" by auto
    show ?thesis
      unfolding batch_loop_step[OF c True] w Let_def
      using ih by (auto split: option.splits prod.splits)
  qed
qed

lemma ceil_div_exact: "0 < b \<Longrightarrow> n mod b = 0 \<Longrightarrow> (n + b - 1) div b = n div (b::nat)"
  by (metis (no_types, lifting) Nat.add_diff_assoc2 Suc_leI add.commute
    add_cancel_left_left bits_mod_div_trivial diff_Suc_1 div_Suc div_add1_eq
    div_self mod_self nat.distinct(1) old.nat.exhaust)

lemma ceil_div_inexact: "0 < b \<Longrightarrow> n mod b \<noteq> 0 \<Longrightarrow> (n + b - 1) div b = Suc (n div (b::nat))"
  by (metis (no_types, lifting) One_nat_def Suc_pred add_gr_0 div_Suc
    div_mult_self1 mod_add_self2 mult_1 neq0_conv plus_1_eq_Suc)

lemma length_expected_sizes: "0 < b \<Longrightarrow> length (expected_sizes n b) = (n + b - 1) div b"
proof (cases "n mod b = 0")
  case True
  assume "0 < b"
  from ceil_div_exact[OF this True] True show ?thesis by (simp add: expected_sizes_def)
next
  case False
  assume "0 < b"
  from ceil_div_inexact[OF this False] False show ?thesis by (simp add: expected_sizes_def)
qed

lemma replicate_2: "replicate 2 x = [x, x]"
  by (simp add: numeral_2_eq_2)

lemma ex_extract: "extractValues (VStruct (ex_event n ''m'')) [''id'', ''email'', ''age''] = Inr (ex_tuple n)"
  by (simp add: extractValues_def TypeOf_def ex_defs eval_names ex_tuple_def)

lemma ex_columns: "analyzeStructure (VStruct (ex_event n ''m'')) = Inr [''id'', ''email'', ''age'']"
  by (simp add: analyzeStructure_struct ex_defs eval_names)

lemmas eval_run = BatchInsert_def ex_data_def ex_columns ex_extract batch_loop.simps append_loop.simps wrap64_def
  prepareBatch_def ex_client_def ok_driver_def

lemma ex_run_ok:
  "BatchInsert (ex_client ok_driver 2) ''t'' ex_data [] =
     Some (None, [EvPrepareBatch ''INSERT INTO t (id, email, age)'', EvAppend (ex_tuple 0), EvAppend (ex_tuple 1), EvSend,
                  EvPrepareBatch ''INSERT INTO t (id, email, age)'', EvAppend (ex_tuple 2), EvAppend (ex_tuple 3), EvSend,
                  EvPrepareBatch ''INSERT INTO t (id, email, age)'', EvAppend (ex_tuple 4), EvSend])"
  by (simp add: eval_run)

text \<open>
  C4. Let the client have a driver and a positive batch size \<open>B\<close> (a Go \<open>int\<close>), and let
  the data be a slice of \<open>N\<close> elements (\<open>N\<close> below \<open>2^62\<close>, so that \<open>i + B\<close>
  does not overflow). Then \<open>BatchInsert\<close> returns, and when it returns without error the
  batches it sent have the sizes \<open>B, ..., B\<close> (\<open>N div B\<close> times) followed by \<open>N mod B\<close>
  when that is not zero: \<open>ceil(N/B)\<close> batches in all. The tuples appended are those of
  the elements of the slice, in order, for the columns of element 0.
\<close>

theorem ingestion_chunks:
  assumes "conn c = Some d" and "0 < batchSize c" and "batchSize c < 2 ^ 63"
    and "KindV data = Slice" and "int (length (elems data)) < 2 ^ 62"
  shows "\<exists>res tr'. BatchInsert c tableName data tr = Some (res, tr')
     \<and> (res = None \<longrightarrow>
          (\<exists>evs columns. tr' = tr @ evs
             \<and> chunk_sizes evs 0 =
                 replicate (length (elems data) div nat (batchSize c)) (nat (batchSize c))
                 @ (if length (elems data) mod nat (batchSize c) = 0 then []
                    else [length (elems data) mod nat (batchSize c)])
             \<and> length (chunk_sizes evs 0)
                 = (length (elems data) + nat (batchSize c) - 1) div nat (batchSize c)
             \<and> (elems data \<noteq> [] \<longrightarrow> analyzeStructure (Interface_of (elems data ! 0)) = Inr columns)
             \<and> map Inr (appended evs) = map (\<lambda>x. extractValues (Interface_of x) columns) (elems data)))"
proof (cases "length (elems data) = 0")
  case True
  then have "BatchInsert c tableName data tr = Some (None, tr)"
    using assms(4) by (simp add: BatchInsert_def)
  moreover have "chunk_sizes [] 0 = replicate (length (elems data) div nat (batchSize c)) (nat (batchSize c))
                 @ (if length (elems data) mod nat (batchSize c) = 0 then []
                    else [length (elems data) mod nat (batchSize c)])"
    using True by simp
  moreover have "length (chunk_sizes [] 0) = (length (elems data) + nat (batchSize c) - 1) div nat (batchSize c)"
    using True assms(2) by simp
  moreover have "map Inr (appended []) = map (\<lambda>x. extractValues (Interface_of x) []) (elems data)"
    using True by simp
  moreover have "elems data \<noteq> [] \<longrightarrow> analyzeStructure (Interface_of (elems data ! 0)) = Inr []"
    using True by simp
  ultimately show ?thesis by (metis append_Nil2)
next
  case False
  show ?thesis
  proof (cases "analyzeStructure (Interface_of (elems data ! 0))")
    case (Inl err)
    with False assms(4) have "BatchInsert c tableName data tr = Some (Some (wrap AnalyzeFailed err), tr)"
      by (simp add: BatchInsert_def)
    then show ?thesis by simp
  next
    case (Inr columns)
    with False assms(4) have b: "BatchInsert c tableName data tr = batch_loop c tableName columns (elems data) 0 tr"
      by (simp add: BatchInsert_def)
    from batch_loop_terminates[OF assms(1,2,3,5), of 0 tableName columns tr]
    obtain res tr' where r: "batch_loop c tableName columns (elems data) 0 tr = Some (res, tr')"
      by fastforce
    have "res = None \<longrightarrow>
          (\<exists>evs columns. tr' = tr @ evs
             \<and> chunk_sizes evs 0 =
                 replicate (length (elems data) div nat (batchSize c)) (nat (batchSize c))
                 @ (if length (elems data) mod nat (batchSize c) = 0 then []
                    else [length (elems data) mod nat (batchSize c)])
             \<and> length (chunk_sizes evs 0)
                 = (length (elems data) + nat (batchSize c) - 1) div nat (batchSize c)
             \<and> (elems data \<noteq> [] \<longrightarrow> analyzeStructure (Interface_of (elems data ! 0)) = Inr columns)
             \<and> map Inr (appended evs) = map (\<lambda>x. extractValues (Interface_of x) columns) (elems data))"
    proof
      assume "res = None"
      with r have "batch_loop c tableName columns (elems data) 0 tr = Some (None, tr')" by simp
      from batch_loop_success[OF assms(1,2,3,5) this] obtain evs where
        evs: "tr' = tr @ evs"
          "chunk_sizes evs 0 = expected_sizes (length (elems data)) (nat (batchSize c))"
          "map Inr (appended evs) = map (\<lambda>x. extractValues (Interface_of x) columns) (elems data)"
        by auto
      have "length (chunk_sizes evs 0) = (length (elems data) + nat (batchSize c) - 1) div nat (batchSize c)"
        using evs(2) assms(2) by (simp add: length_expected_sizes)
      with evs Inr show "\<exists>evs columns. tr' = tr @ evs
             \<and> chunk_sizes evs 0 =
                 replicate (length (elems data) div nat (batchSize c)) (nat (batchSize c))
                 @ (if length (elems data) mod nat (batchSize c) = 0 then []
                    else [length (elems data) mod nat (batchSize c)])
             \<and> length (chunk_sizes evs 0)
                 = (length (elems data) + nat (batchSize c) - 1) div nat (batchSize c)
             \<and> (elems data \<noteq> [] \<longrightarrow> analyzeStructure (Interface_of (elems data ! 0)) = Inr columns)
             \<and> map Inr (appended evs) = map (\<lambda>x. extractValues (Interface_of x) columns) (elems data)"
        unfolding expected_sizes_def by blast
    qed
    with b r show ?thesis by simp
  qed
qed

theorem ingestion_chunks_witness:
  "conn (ex_client ok_driver 2) = Some ok_driver
   \<and> 0 < batchSize (ex_client ok_driver 2) \<and> batchSize (ex_client ok_driver 2) < 2 ^ 63
   \<and> KindV ex_data = Slice \<and> int (length (elems ex_data)) < 2 ^ 62
   \<and> (\<exists>tr'. BatchInsert (ex_client ok_driver 2) ''t'' ex_data [] = Some (None, tr')
          \<and> chunk_sizes tr' 0 = [2, 2, 1] \<and> length (chunk_sizes tr' 0) = 3)"
proof -
  have h1: "conn (ex_client ok_driver 2) = Some ok_driver" by (simp add: ex_client_def)
  have h2: "0 < batchSize (ex_client ok_driver 2)" by (simp add: ex_client_def)
  have h3: "batchSize (ex_client ok_driver 2) < 2 ^ 63" by (simp add: ex_client_def)
  have h4: "KindV ex_data = Slice" by (simp add: ex_data_def)
  have h5: "int (length (elems ex_data)) < 2 ^ 62" by (simp add: ex_data_def)
  from ingestion_chunks [OF h1 h2 h3 h4 h5, of "''t''" "[]"] obtain res tr' where
    r: "BatchInsert (ex_client ok_driver 2) ''t'' ex_data [] = Some (res, tr')"
    and imp: "res = None \<longrightarrow>
          (\<exists>evs columns. tr' = [] @ evs
             \<and> chunk_sizes evs 0 =
                 replicate (length (elems ex_data) div nat (batchSize (ex_client ok_driver 2))) (nat (batchSize (ex_client ok_driver 2)))
                 @ (if length (elems ex_data) mod nat (batchSize (ex_client ok_driver 2)) = 0 then []
                    else [length (elems ex_data) mod nat (batchSize (ex_client ok_driver 2))])
             \<and> length (chunk_sizes evs 0)
                 = (length (elems ex_data) + nat (batchSize (ex_client ok_driver 2)) - 1) div nat (batchSize (ex_client ok_driver 2))
             \<and> (elems ex_data \<noteq> [] \<longrightarrow> analyzeStructure (Interface_of (elems ex_data ! 0)) = Inr columns)
             \<and> map Inr (appended evs) = map (\<lambda>x. extractValues (Interface_of x) columns) (elems ex_data))"
    by blast
  from r ex_run_ok have "res = None" by simp
  with imp have "chunk_sizes tr' 0 =
        replicate (length (elems ex_data) div nat (batchSize (ex_client ok_driver 2))) (nat (batchSize (ex_client ok_driver 2)))
        @ (if length (elems ex_data) mod nat (batchSize (ex_client ok_driver 2)) = 0 then []
           else [length (elems ex_data) mod nat (batchSize (ex_client ok_driver 2))])"
    by auto
  moreover have "length (elems ex_data) = 5" by (simp add: ex_data_def)
  moreover have "nat (batchSize (ex_client ok_driver 2)) = 2" by (simp add: ex_client_def)
  ultimately have "chunk_sizes tr' 0 = replicate (5 div 2) 2 @ (if (5::nat) mod 2 = 0 then [] else [5 mod 2])"
    by simp
  then have "chunk_sizes tr' 0 = [2, 2, 1]"
    by (simp add: replicate_2)
  with r \<open>res = None\<close> h1 h2 h3 h4 h5 show ?thesis by simp
qed

lemma BatchInsert_returns:
  assumes "conn c = Some d" and "0 < batchSize c" and "batchSize c < 2 ^ 63"
    and "int (length (elems data)) < 2 ^ 62"
  shows "\<exists>r. BatchInsert c tableName data tr = Some r"
proof -
  have "\<And>columns. \<exists>r. batch_loop c tableName columns (elems data) 0 tr = Some r"
    using batch_loop_terminates[OF assms, of 0] by simp
  then show ?thesis
    by (auto simp: BatchInsert_def split: sum.splits)
qed

section \<open>The tuples that a run appends\<close>

lemma append_loop_trace:
  "append_loop d cols items j stop tr = (res, tr') \<Longrightarrow>
   \<exists>ts. tr' = tr @ map EvAppend ts
      \<and> (\<forall>vals \<in> set ts. \<exists>x \<in> set items. extractValues (Interface_of x) cols = Inr vals)"
proof (induction d cols items j stop tr rule: append_loop.induct)
  case (1 batch columns items j stop tr)
  show ?case
  proof (cases "j < stop \<and> \<not> (j < 0 \<or> int (length items) \<le> j)")
    case False
    with "1.prems" have "tr' = tr"
      by (subst (asm) append_loop.simps) (auto split: if_splits)
    then show ?thesis by (intro exI[of _ "[]"]) simp
  next
    case True
    then have js: "j < stop" and inr: "\<not> (j < 0 \<or> int (length items) \<le> j)" by auto
    from inr have mem: "items ! nat j \<in> set items" by auto
    show ?thesis
    proof (cases "extractValues (Interface_of (items ! nat j)) columns")
      case (Inl err)
      with True "1.prems" have "tr' = tr"
        by (subst (asm) append_loop.simps) auto
      then show ?thesis by (intro exI[of _ "[]"]) simp
    next
      case (Inr vals)
      show ?thesis
      proof (cases "Append batch tr vals")
        case (Some err)
        with True Inr "1.prems" have "tr' = tr @ map EvAppend [vals]"
          by (subst (asm) append_loop.simps) auto
        with Inr mem show ?thesis by (intro exI[of _ "[vals]"]) auto
      next
        case None
        with True Inr "1.prems" have r: "append_loop batch columns items (j + 1) stop (tr @ [EvAppend vals]) = (res, tr')"
          by (subst (asm) append_loop.simps) auto
        from "1.IH"[OF js inr Inr None r] obtain ts where
          ts: "tr' = (tr @ [EvAppend vals]) @ map EvAppend ts"
            "\<forall>vals \<in> set ts. \<exists>x \<in> set items. extractValues (Interface_of x) columns = Inr vals"
          by blast
        with Inr mem show ?thesis by (intro exI[of _ "vals # ts"]) auto
      qed
    qed
  qed
qed

lemma batch_loop_trace:
  assumes "batch_loop c tn cols items i tr = Some y"
  shows "\<forall>vals. EvAppend vals \<in> set (snd y) \<longrightarrow>
      EvAppend vals \<in> set tr \<or> (\<exists>x \<in> set items. extractValues (Interface_of x) cols = Inr vals)"
proof (rule batch_loop.raw_induct[OF _ assms])
  fix loop :: "ClickHouseClient \<Rightarrow> string \<Rightarrow> string list \<Rightarrow> rvalue list \<Rightarrow> int \<Rightarrow> event list
                 \<Rightarrow> (error option \<times> event list) option"
    and c tn cols items i tr y
  assume IH: "\<And>c tn cols items i tr y. loop c tn cols items i tr = Some y \<Longrightarrow>
      \<forall>vals. EvAppend vals \<in> set (snd y) \<longrightarrow>
        EvAppend vals \<in> set tr \<or> (\<exists>x \<in> set items. extractValues (Interface_of x) cols = Inr vals)"
  assume body: "(if i < int (length items)
      then let end0 = wrap64 (i + batchSize c);
               stop = if int (length items) < end0 then int (length items) else end0
           in (case prepareBatch c tn cols tr of
                 (Inl err, tr1) \<Rightarrow> Some (Some (wrap PrepareFailed err), tr1)
               | (Inr batch, tr1) \<Rightarrow>
                   (case append_loop batch cols items i stop tr1 of
                      (None, tr2) \<Rightarrow>
                        (case Send batch tr2 of
                           None \<Rightarrow> loop c tn cols items (wrap64 (i + batchSize c)) (tr2 @ [EvSend])
                         | Some err \<Rightarrow>
                             Some (Some (SendFailed i (wrap64 (stop - 1)) (DriverError err)), tr2 @ [EvSend]))
                    | (Some err, tr2) \<Rightarrow> Some (Some err, tr2)))
      else Some (None, tr)) = Some y"
  note prems = body
  show "\<forall>vals. EvAppend vals \<in> set (snd y) \<longrightarrow>
      EvAppend vals \<in> set tr \<or> (\<exists>x \<in> set items. extractValues (Interface_of x) cols = Inr vals)"
  proof (cases "i < int (length items)")
    case False
    with prems show ?thesis by auto
  next
    case True
    define stop where "stop = (if wrap64 (i + batchSize c) > int (length items) then int (length items) else wrap64 (i + batchSize c))"
    show ?thesis
    proof (cases "prepareBatch c tn cols tr")
      case (Pair pr tr1)
      then have tr1: "set tr1 \<subseteq> set tr \<union> {e. \<exists>sql. e = EvPrepareBatch sql}"
        by (auto simp: prepareBatch_def Let_def split: option.splits)
      show ?thesis
      proof (cases pr)
        case (Inl err)
        with True Pair prems have "snd y = tr1" by (auto simp: Let_def)
        with tr1 show ?thesis by auto
      next
        case (Inr batch)
        obtain ar tr2 where a: "append_loop batch cols items i stop tr1 = (ar, tr2)"
          by (cases "append_loop batch cols items i stop tr1")
        from append_loop_trace[OF a] obtain ts where
          ts: "tr2 = tr1 @ map EvAppend ts"
            "\<forall>vals \<in> set ts. \<exists>x \<in> set items. extractValues (Interface_of x) cols = Inr vals"
          by blast
        have tr2: "\<forall>vals. EvAppend vals \<in> set tr2 \<longrightarrow>
            EvAppend vals \<in> set tr \<or> (\<exists>x \<in> set items. extractValues (Interface_of x) cols = Inr vals)"
          using ts tr1 by auto
        from prems True Pair Inr have y_eq:
          "(case append_loop batch cols items i stop tr1 of
              (None, tr2) \<Rightarrow>
                (case Send batch tr2 of
                   None \<Rightarrow> loop c tn cols items (wrap64 (i + batchSize c)) (tr2 @ [EvSend])
                 | Some err \<Rightarrow>
                     Some (Some (SendFailed i (wrap64 (stop - 1)) (DriverError err)), tr2 @ [EvSend]))
            | (Some err, tr2) \<Rightarrow> Some (Some err, tr2)) = Some y"
          unfolding Let_def stop_def by simp
        show ?thesis
        proof (cases ar)
          case (Some err)
          with y_eq a have "y = (Some err, tr2)" by simp
          with tr2 show ?thesis by simp
        next
          case None
          show ?thesis
          proof (cases "Send batch tr2")
            case (Some err)
            with None y_eq a have "snd y = tr2 @ [EvSend]" by auto
            with tr2 show ?thesis by simp
          next
            case sn: None
            with None y_eq a
            have "loop c tn cols items (wrap64 (i + batchSize c)) (tr2 @ [EvSend]) = Some y"
              by simp
            from IH[OF this] tr2 show ?thesis by auto
          qed
        qed
      qed
    qed
  qed
qed

text \<open>
  C3. Let the sequence be non-empty, let element 0 be a record, and let every element be
  a well-typed record of the struct type of element 0. Then \<open>analyzeStructure\<close> gives
  a column list for element 0; for every element \<open>extractValues\<close> gives a tuple of the
  length of the column list, whose position \<open>i\<close> is the converted value of the field
  whose name is column \<open>i\<close>; and every tuple that a run of \<open>BatchInsert\<close> on the
  sequence appends, in whatever chunk, is the tuple of one of the elements and has the
  length of the column list.
\<close>

theorem tuple_aligned_with_columns:
  assumes "items \<noteq> []"
    and "record_of (Interface_of (items ! 0)) = Some fvs0"
    and "\<forall>x \<in> set items. \<exists>fvs. record_of (Interface_of x) = Some fvs
            \<and> type_of (VStruct fvs) = type_of (VStruct fvs0) \<and> well_typed x"
  shows "\<exists>columns. analyzeStructure (Interface_of (items ! 0)) = Inr columns
      \<and> (\<forall>j<length items. \<exists>vals fvs.
            record_of (Interface_of (items ! j)) = Some fvs
          \<and> extractValues (Interface_of (items ! j)) columns = Inr vals
          \<and> length vals = length columns
          \<and> (\<forall>i<length columns. \<exists>f v.
                filter (\<lambda>fv. IsExported (fst fv) \<and> getColumnName (fst fv) \<noteq> ''-'') fvs ! i = (f, v)
              \<and> columns ! i = getColumnName f \<and> convertValue v = Inr (vals ! i)))
      \<and> (\<forall>c tableName t tr y. BatchInsert c tableName (VSeq Slice t items) tr = Some y \<longrightarrow>
            (\<forall>vals. EvAppend vals \<in> set (snd y) \<longrightarrow>
               EvAppend vals \<in> set tr
             \<or> length vals = length columns
               \<and> (\<exists>j<length items. extractValues (Interface_of (items ! j)) columns = Inr vals)))"
proof -
  let ?columns = "map getColumnName (filter (\<lambda>f. IsExported f \<and> getColumnName f \<noteq> ''-'') (map fst fvs0))"
  have each: "\<forall>j<length items. \<exists>vals fvs.
            record_of (Interface_of (items ! j)) = Some fvs
          \<and> analyzeStructure (Interface_of (items ! 0)) = Inr ?columns
          \<and> extractValues (Interface_of (items ! j)) ?columns = Inr vals
          \<and> length vals = length ?columns
          \<and> (\<forall>i<length ?columns. \<exists>f v.
                filter (\<lambda>fv. IsExported (fst fv) \<and> getColumnName (fst fv) \<noteq> ''-'') fvs ! i = (f, v)
              \<and> ?columns ! i = getColumnName f \<and> convertValue v = Inr (vals ! i))"
  proof (intro allI impI)
    fix j assume j: "j < length items"
    then have "items ! j \<in> set items" by simp
    with assms(3) obtain fvs where f: "record_of (Interface_of (items ! j)) = Some fvs"
      "type_of (VStruct fvs) = type_of (VStruct fvs0)" "well_typed (items ! j)"
      by blast
    from extract_aligned[OF assms(2) j f] f(1)
    show "\<exists>vals fvs.
            record_of (Interface_of (items ! j)) = Some fvs
          \<and> analyzeStructure (Interface_of (items ! 0)) = Inr ?columns
          \<and> extractValues (Interface_of (items ! j)) ?columns = Inr vals
          \<and> length vals = length ?columns
          \<and> (\<forall>i<length ?columns. \<exists>f v.
                filter (\<lambda>fv. IsExported (fst fv) \<and> getColumnName (fst fv) \<noteq> ''-'') fvs ! i = (f, v)
              \<and> ?columns ! i = getColumnName f \<and> convertValue v = Inr (vals ! i))"
      by blast
  qed
  from assms(1) have l0: "0 < length items" by simp
  with each have a: "analyzeStructure (Interface_of (items ! 0)) = Inr ?columns" by blast
  have run: "\<forall>c tableName t tr y. BatchInsert c tableName (VSeq Slice t items) tr = Some y \<longrightarrow>
            (\<forall>vals. EvAppend vals \<in> set (snd y) \<longrightarrow>
               EvAppend vals \<in> set tr
             \<or> length vals = length ?columns
               \<and> (\<exists>j<length items. extractValues (Interface_of (items ! j)) ?columns = Inr vals))"
  proof (intro allI impI)
    fix c tableName t tr y vals
    assume b: "BatchInsert c tableName (VSeq Slice t items) tr = Some y" and m: "EvAppend vals \<in> set (snd y)"
    from b a assms(1) have "batch_loop c tableName ?columns items 0 tr = Some y"
      by (simp add: BatchInsert_def)
    from batch_loop_trace[OF this] m have
      "EvAppend vals \<in> set tr \<or> (\<exists>x \<in> set items. extractValues (Interface_of x) ?columns = Inr vals)"
      by blast
    then show "EvAppend vals \<in> set tr
             \<or> length vals = length ?columns
               \<and> (\<exists>j<length items. extractValues (Interface_of (items ! j)) ?columns = Inr vals)"
    proof
      assume "EvAppend vals \<in> set tr"
      then show ?thesis by simp
    next
      assume "\<exists>x \<in> set items. extractValues (Interface_of x) ?columns = Inr vals"
      then obtain j where j: "j < length items" "extractValues (Interface_of (items ! j)) ?columns = Inr vals"
        by (auto simp: in_set_conv_nth)
      with each obtain vals' where "extractValues (Interface_of (items ! j)) ?columns = Inr vals'"
        "length vals' = length ?columns" by blast
      with j have "length vals = length ?columns" by simp
      with j show ?thesis by blast
    qed
  qed
  from a each run show ?thesis by blast
qed

theorem tuple_aligned_with_columns_witness:
  "[VStruct (ex_event 1 ''a''), VPtr (VStruct (ex_event 2 ''b''))] \<noteq> []
   \<and> record_of (Interface_of ([VStruct (ex_event 1 ''a''), VPtr (VStruct (ex_event 2 ''b''))] ! 0)) = Some (ex_event 1 ''a'')
   \<and> record_of (Interface_of (VPtr (VStruct (ex_event 2 ''b'')))) = Some (ex_event 2 ''b'')
   \<and> type_of (VStruct (ex_event 2 ''b'')) = type_of (VStruct (ex_event 1 ''a''))
   \<and> well_typed (VStruct (ex_event 1 ''a'')) \<and> well_typed (VPtr (VStruct (ex_event 2 ''b'')))
   \<and> (\<exists>columns vals.
          analyzeStructure (VStruct (ex_event 1 ''a'')) = Inr columns
        \<and> extractValues (VPtr (VStruct (ex_event 2 ''b''))) columns = Inr vals
        \<and> length vals = length columns)"
proof -
  let ?items = "[VStruct (ex_event 1 ''a''), VPtr (VStruct (ex_event 2 ''b''))]"
  have h1: "?items \<noteq> []" by simp
  have h2: "record_of (Interface_of (?items ! 0)) = Some (ex_event 1 ''a'')" by simp
  have r1: "record_of (Interface_of (VPtr (VStruct (ex_event 2 ''b'')))) = Some (ex_event 2 ''b'')" by simp
  have ty: "type_of (VStruct (ex_event 2 ''b'')) = type_of (VStruct (ex_event 1 ''a''))"
    by (simp add: ex_defs)
  have w0: "well_typed (VStruct (ex_event 1 ''a''))" and w1: "well_typed (VPtr (VStruct (ex_event 2 ''b'')))"
    by (simp_all add: ex_defs)
  have h3: "\<forall>x \<in> set ?items. \<exists>fvs. record_of (Interface_of x) = Some fvs
            \<and> type_of (VStruct fvs) = type_of (VStruct (ex_event 1 ''a'')) \<and> well_typed x"
    using ty w0 w1 by simp
  from tuple_aligned_with_columns [OF h1 h2 h3] obtain columns where
    c: "analyzeStructure (Interface_of (?items ! 0)) = Inr columns"
    and e: "\<forall>j<length ?items. \<exists>vals fvs.
            record_of (Interface_of (?items ! j)) = Some fvs
          \<and> extractValues (Interface_of (?items ! j)) columns = Inr vals
          \<and> length vals = length columns
          \<and> (\<forall>i<length columns. \<exists>f v.
                filter (\<lambda>fv. IsExported (fst fv) \<and> getColumnName (fst fv) \<noteq> ''-'') fvs ! i = (f, v)
              \<and> columns ! i = getColumnName f \<and> convertValue v = Inr (vals ! i))"
    by blast
  have "(1::nat) < length ?items" by simp
  with e obtain vals where "extractValues (Interface_of (?items ! 1)) columns = Inr vals" "length vals = length columns"
    by blast
  with c have "\<exists>columns vals.
          analyzeStructure (VStruct (ex_event 1 ''a'')) = Inr columns
        \<and> extractValues (VPtr (VStruct (ex_event 2 ''b''))) columns = Inr vals
        \<and> length vals = length columns"
    by auto
  with h1 h2 r1 ty w0 w1 show ?thesis by blast
qed

section \<open>Batch insertion: failures\<close>

text \<open>
  Whatever the batch size and the data: when the loop of \<open>BatchInsert\<close> returns an error
  that comes from the driver, the failed call is the last call of the trace, so nothing
  is prepared, appended or sent after it. The error of a failed \<open>Send\<close> carries two
  indices; the errors of a failed \<open>PrepareBatch\<close> and of a failed \<open>Append\<close> carry the
  driver's error and nothing else.
\<close>

lemma wrap_cases: "(\<exists>m. wrap f e = Panic m) \<or> wrap f e = f e"
  by (cases e) auto

lemma append_loop_failure:
  "append_loop d cols items j stop tr = (Some err, tr') \<Longrightarrow>
   (\<exists>m. err = Panic m) \<or> (\<exists>j e. err = ExtractFailed j e)
   \<or> (\<exists>m vals h. err = AppendFailed (DriverError m) \<and> tr' = h @ [EvAppend vals] \<and> Append d h vals = Some m)"
proof (induction d cols items j stop tr rule: append_loop.induct)
  case (1 batch columns items j stop tr)
  show ?case
  proof (cases "j < stop \<and> \<not> (j < 0 \<or> int (length items) \<le> j)")
    case False
    with "1.prems" show ?thesis
      by (subst (asm) append_loop.simps) (auto split: if_splits)
  next
    case True
    then have js: "j < stop" and inr: "\<not> (j < 0 \<or> int (length items) \<le> j)" by auto
    show ?thesis
    proof (cases "extractValues (Interface_of (items ! nat j)) columns")
      case (Inl e)
      with True "1.prems" have "err = wrap (ExtractFailed j) e"
        by (subst (asm) append_loop.simps) auto
      with wrap_cases[of "ExtractFailed j" e] show ?thesis by auto
    next
      case (Inr vals)
      show ?thesis
      proof (cases "Append batch tr vals")
        case (Some m)
        with True Inr "1.prems" have "err = AppendFailed (DriverError m)" "tr' = tr @ [EvAppend vals]"
          by (subst (asm) append_loop.simps, auto)+
        with Some show ?thesis by blast
      next
        case None
        with True Inr "1.prems" have r: "append_loop batch columns items (j + 1) stop (tr @ [EvAppend vals]) = (Some err, tr')"
          by (subst (asm) append_loop.simps) auto
        from "1.IH"[OF js inr Inr None r] show ?thesis .
      qed
    qed
  qed
qed

lemma failure_is_last_call:
  assumes "batch_loop c tn cols items i tr = Some y"
  shows "\<forall>d err. conn c = Some d \<and> fst y = Some err \<longrightarrow>
      (\<exists>m. err = Panic m) \<or> (\<exists>j e. err = ExtractFailed j e)
    \<or> (\<exists>m sql h. err = PrepareFailed (DriverError m) \<and> snd y = h @ [EvPrepareBatch sql] \<and> PrepareBatch d h sql = Some m)
    \<or> (\<exists>m vals h. err = AppendFailed (DriverError m) \<and> snd y = h @ [EvAppend vals] \<and> Append d h vals = Some m)
    \<or> (\<exists>m a b h. err = SendFailed a b (DriverError m) \<and> snd y = h @ [EvSend] \<and> Send d h = Some m)"
proof (rule batch_loop.raw_induct[OF _ assms])
  fix loop :: "ClickHouseClient \<Rightarrow> string \<Rightarrow> string list \<Rightarrow> rvalue list \<Rightarrow> int \<Rightarrow> event list
                 \<Rightarrow> (error option \<times> event list) option"
    and c tn cols items i tr y
  assume IH: "\<And>c tn cols items i tr y. loop c tn cols items i tr = Some y \<Longrightarrow>
    \<forall>d err. conn c = Some d \<and> fst y = Some err \<longrightarrow>
      (\<exists>m. err = Panic m) \<or> (\<exists>j e. err = ExtractFailed j e)
    \<or> (\<exists>m sql h. err = PrepareFailed (DriverError m) \<and> snd y = h @ [EvPrepareBatch sql] \<and> PrepareBatch d h sql = Some m)
    \<or> (\<exists>m vals h. err = AppendFailed (DriverError m) \<and> snd y = h @ [EvAppend vals] \<and> Append d h vals = Some m)
    \<or> (\<exists>m a b h. err = SendFailed a b (DriverError m) \<and> snd y = h @ [EvSend] \<and> Send d h = Some m)"
  assume body: "(if i < int (length items)
      then let end0 = wrap64 (i + batchSize c);
               stop = if int (length items) < end0 then int (length items) else end0
           in (case prepareBatch c tn cols tr of
                 (Inl err, tr1) \<Rightarrow> Some (Some (wrap PrepareFailed err), tr1)
               | (Inr batch, tr1) \<Rightarrow>
                   (case append_loop batch cols items i stop tr1 of
                      (None, tr2) \<Rightarrow>
                        (case Send batch tr2 of
                           None \<Rightarrow> loop c tn cols items (wrap64 (i + batchSize c)) (tr2 @ [EvSend])
                         | Some err \<Rightarrow>
                             Some (Some (SendFailed i (wrap64 (stop - 1)) (DriverError err)), tr2 @ [EvSend]))
                    | (Some err, tr2) \<Rightarrow> Some (Some err, tr2)))
      else Some (None, tr)) = Some y"
  show "\<forall>d err. conn c = Some d \<and> fst y = Some err \<longrightarrow>
      (\<exists>m. err = Panic m) \<or> (\<exists>j e. err = ExtractFailed j e)
    \<or> (\<exists>m sql h. err = PrepareFailed (DriverError m) \<and> snd y = h @ [EvPrepareBatch sql] \<and> PrepareBatch d h sql = Some m)
    \<or> (\<exists>m vals h. err = AppendFailed (DriverError m) \<and> snd y = h @ [EvAppend vals] \<and> Append d h vals = Some m)
    \<or> (\<exists>m a b h. err = SendFailed a b (DriverError m) \<and> snd y = h @ [EvSend] \<and> Send d h = Some m)"
  proof (intro allI impI)
    fix d err assume de: "conn c = Some d \<and> fst y = Some err"
    then have cn: "conn c = Some d" and fy: "fst y = Some err" by simp_all
    have lt: "i < int (length items)" using body fy by (auto split: if_splits)
    define stop where "stop = (if wrap64 (i + batchSize c) > int (length items) then int (length items) else wrap64 (i + batchSize c))"
    define sql where "sql = ''INSERT INTO '' @ tn @ '' ('' @ Join cols '', '' @ '')''"
    show "(\<exists>m. err = Panic m) \<or> (\<exists>j e. err = ExtractFailed j e)
    \<or> (\<exists>m sql h. err = PrepareFailed (DriverError m) \<and> snd y = h @ [EvPrepareBatch sql] \<and> PrepareBatch d h sql = Some m)
    \<or> (\<exists>m vals h. err = AppendFailed (DriverError m) \<and> snd y = h @ [EvAppend vals] \<and> Append d h vals = Some m)
    \<or> (\<exists>m a b h. err = SendFailed a b (DriverError m) \<and> snd y = h @ [EvSend] \<and> Send d h = Some m)"
    proof (cases "PrepareBatch d tr sql")
      case (Some m)
      then have "prepareBatch c tn cols tr = (Inl (DriverError m), tr @ [EvPrepareBatch sql])"
        using cn by (simp add: prepareBatch_def sql_def)
      with body lt have "y = (Some (PrepareFailed (DriverError m)), tr @ [EvPrepareBatch sql])"
        by (simp add: Let_def)
      with fy Some show ?thesis by auto
    next
      case None
      then have pb: "prepareBatch c tn cols tr = (Inr d, tr @ [EvPrepareBatch sql])"
        using cn by (simp add: prepareBatch_def sql_def)
      obtain ar tr2 where a: "append_loop d cols items i stop (tr @ [EvPrepareBatch sql]) = (ar, tr2)"
        by (cases "append_loop d cols items i stop (tr @ [EvPrepareBatch sql])")
      from body lt pb have y_eq:
          "(case append_loop d cols items i stop (tr @ [EvPrepareBatch sql]) of
              (None, tr2) \<Rightarrow>
                (case Send d tr2 of
                   None \<Rightarrow> loop c tn cols items (wrap64 (i + batchSize c)) (tr2 @ [EvSend])
                 | Some err \<Rightarrow>
                     Some (Some (SendFailed i (wrap64 (stop - 1)) (DriverError err)), tr2 @ [EvSend]))
            | (Some err, tr2) \<Rightarrow> Some (Some err, tr2)) = Some y"
        unfolding Let_def stop_def by simp
      show ?thesis
      proof (cases ar)
        case (Some e)
        with y_eq a have "y = (Some e, tr2)" by simp
        with fy have "e = err" "snd y = tr2" by simp_all
        with append_loop_failure[of d cols items i stop "tr @ [EvPrepareBatch sql]" err tr2] a Some
        show ?thesis by auto
      next
        case an: None
        show ?thesis
        proof (cases "Send d tr2")
          case (Some m)
          with an y_eq a have "y = (Some (SendFailed i (wrap64 (stop - 1)) (DriverError m)), tr2 @ [EvSend])"
            by simp
          with fy Some show ?thesis by auto
        next
          case None
          with an y_eq a have "loop c tn cols items (wrap64 (i + batchSize c)) (tr2 @ [EvSend]) = Some y"
            by simp
          from IH[OF this] de show ?thesis by blast
        qed
      qed
    qed
  qed
qed

text \<open>
  C1. Five records are inserted with batch size 2. When the third \<open>Append\<close> fails (a
  record of the second chunk, indices 2 to 3), the call stops there, and the error it
  returns is \<open>failed to append data to batch\<close> around the driver's error: it names no
  index. When instead the second \<open>Send\<close> fails, the call stops there and the error is
  \<open>failed to send batch 2-3\<close>, which names the chunk.
\<close>

theorem append_failure_reports_no_range:
  "BatchInsert (ex_client append_fails_driver 2) ''t'' ex_data [] =
     Some (Some (AppendFailed (DriverError ''boom'')),
           [EvPrepareBatch ''INSERT INTO t (id, email, age)'', EvAppend (ex_tuple 0), EvAppend (ex_tuple 1), EvSend,
            EvPrepareBatch ''INSERT INTO t (id, email, age)'', EvAppend (ex_tuple 2)])
   \<and> BatchInsert (ex_client send_fails_driver 2) ''t'' ex_data [] =
     Some (Some (SendFailed 2 3 (DriverError ''boom'')),
           [EvPrepareBatch ''INSERT INTO t (id, email, age)'', EvAppend (ex_tuple 0), EvAppend (ex_tuple 1), EvSend,
            EvPrepareBatch ''INSERT INTO t (id, email, age)'', EvAppend (ex_tuple 2), EvAppend (ex_tuple 3), EvSend])"
  by (simp add: eval_run append_fails_driver_def send_fails_driver_def)

section \<open>The constructor\<close>

text \<open>
  C10. A client that \<open>NewClickHouseClient\<close> returns has a positive batch size: the
  configured one when that is positive, 1000 otherwise. Whenever the connection opens and
  answers the ping the constructor returns a client, whatever the configured batch size
  is. Hence \<open>BatchInsert\<close> on a constructed client always returns (for a slice of fewer
  than \<open>2^62\<close> elements).
\<close>

theorem constructor_batch_size_positive:
  "(\<forall>c. fst (NewClickHouseClient lib config g) = Inr c \<longrightarrow>
        0 < batchSize c \<and> batchSize c = (if BatchSize config \<le> 0 then 1000 else BatchSize config))
   \<and> (\<forall>cn. Open lib (Split (Hosts config) (CHR '','')) (Database config) (Username config)
              (Password config) (Debug config) = Inr cn \<and> Ping lib cn = None \<longrightarrow>
          (\<exists>c. NewClickHouseClient lib config g = (Inr c, c)))
   \<and> (\<forall>c. fst (NewClickHouseClient lib config g) = Inr c \<and> BatchSize config < 2 ^ 63
            \<and> int (length (elems data)) < 2 ^ 62 \<longrightarrow>
          (\<exists>r. BatchInsert c tableName data tr = Some r))"
proof -
  have p1: "\<forall>c. fst (NewClickHouseClient lib config g) = Inr c \<longrightarrow>
        0 < batchSize c \<and> batchSize c = (if BatchSize config \<le> 0 then 1000 else BatchSize config)"
    by (auto simp: NewClickHouseClient_def Let_def split: sum.splits option.splits if_splits)
  have p2: "\<forall>cn. Open lib (Split (Hosts config) (CHR '','')) (Database config) (Username config)
              (Password config) (Debug config) = Inr cn \<and> Ping lib cn = None \<longrightarrow>
          (\<exists>c. NewClickHouseClient lib config g = (Inr c, c))"
    by (simp add: NewClickHouseClient_def Let_def)
  have p3: "\<forall>c. fst (NewClickHouseClient lib config g) = Inr c \<and> BatchSize config < 2 ^ 63
            \<and> int (length (elems data)) < 2 ^ 62 \<longrightarrow>
          (\<exists>r. BatchInsert c tableName data tr = Some r)"
  proof (intro allI impI)
    fix c assume a: "fst (NewClickHouseClient lib config g) = Inr c \<and> BatchSize config < 2 ^ 63
            \<and> int (length (elems data)) < 2 ^ 62"
    then have "\<exists>d. conn c = Some d" "0 < batchSize c" "batchSize c < 2 ^ 63"
      by (auto simp: NewClickHouseClient_def Let_def split: sum.splits option.splits if_splits)
    with a show "\<exists>r. BatchInsert c tableName data tr = Some r"
      using BatchInsert_returns by blast
  qed
  from p1 p2 p3 show ?thesis by blast
qed

theorem constructor_batch_size_positive_witness:
  "\<exists>c. NewClickHouseClient ok_lib (ex_config (- 5)) CKCONN0 = (Inr c, c)
       \<and> 0 < batchSize c \<and> batchSize c = 1000
       \<and> (\<exists>r. BatchInsert c ''t'' ex_data [] = Some r)"
proof -
  have o: "Open ok_lib (Split (Hosts (ex_config (- 5))) (CHR '','')) (Database (ex_config (- 5)))
             (Username (ex_config (- 5))) (Password (ex_config (- 5))) (Debug (ex_config (- 5))) = Inr ok_driver
           \<and> Ping ok_lib ok_driver = None"
    by (simp add: ok_lib_def)
  note t = constructor_batch_size_positive [of ok_lib "ex_config (- 5)" CKCONN0 ex_data "''t''" "[]"]
  from t o obtain c where c: "NewClickHouseClient ok_lib (ex_config (- 5)) CKCONN0 = (Inr c, c)"
    by blast
  then have f: "fst (NewClickHouseClient ok_lib (ex_config (- 5)) CKCONN0) = Inr c" by simp
  with t have b: "0 < batchSize c" "batchSize c = (if BatchSize (ex_config (- 5)) \<le> 0 then 1000 else BatchSize (ex_config (- 5)))"
    by blast+
  then have b2: "batchSize c = 1000" by (simp add: ex_config_def)
  have "BatchSize (ex_config (- 5)) < 2 ^ 63" "int (length (elems ex_data)) < 2 ^ 62"
    by (simp_all add: ex_config_def ex_data_def)
  with t f have "\<exists>r. BatchInsert c ''t'' ex_data [] = Some r" by blast
  with c b(1) b2 show ?thesis by blast
qed

section \<open>Table creation: statements and errors\<close>

lemma hasCreatedAt_iff: "hasCreatedAt cols \<longleftrightarrow> (\<exists>col \<in> set cols. col_Name col = ''created_at'')"
  by (induction cols) auto

lemma create_database_stmt_shape: "create_database_stmt database = spec_create_database database ''bms_cluster''"
  by (simp add: create_database_stmt_def spec_create_database_def)

lemma create_table_stmt_shape:
  "\<exists>rest. create_table_stmt database table order desc cols = spec_create_table_head database table ''bms_cluster'' @ rest"
  by (simp add: create_table_stmt_def spec_create_table_head_def)

lemma create_distributed_stmt_shape:
  "\<exists>rest. create_distributed_stmt distDB localTable desc cols
            = spec_create_table_head distDB (localTable @ ''_distributed'') ''bms_cluster'' @ rest"
  by (simp add: create_distributed_stmt_def spec_create_table_head_def)

lemma CreateTable_run:
  assumes "conn c = Some d" and "hasCreatedAt cols"
  shows "CreateTable c database table order desc cols tr =
     (case conn_Exec d tr (create_database_stmt database) of
        Some err \<Rightarrow> (Some (DriverError err), tr @ [EvExec (create_database_stmt database)])
      | None \<Rightarrow>
          (map_option DriverError
             (conn_Exec d (tr @ [EvExec (create_database_stmt database)])
                (create_table_stmt database table order desc cols)),
           tr @ [EvExec (create_database_stmt database),
                 EvExec (create_table_stmt database table order desc cols)]))"
  using assms by (simp add: CreateTable_def Exec_def split: option.splits)

lemma CreateDistributedTable_run:
  assumes "conn c = Some d" and "cols \<noteq> []"
  shows "CreateDistributedTable c distDB localTable desc cols tr =
     (case conn_Exec d tr (create_database_stmt distDB) of
        Some err \<Rightarrow> (Some (DriverError err), tr @ [EvExec (create_database_stmt distDB)])
      | None \<Rightarrow>
          (map_option DriverError
             (conn_Exec d (tr @ [EvExec (create_database_stmt distDB)])
                (create_distributed_stmt distDB localTable desc cols)),
           tr @ [EvExec (create_database_stmt distDB),
                 EvExec (create_distributed_stmt distDB localTable desc cols)]))"
  using assms by (simp add: CreateDistributedTable_def Exec_def split: option.splits)

text \<open>
  C2 (as amended). For every table specification, the statements that \<open>CreateTable\<close> and
  \<open>CreateDistributedTable\<close> issue are the \<open>CREATE DATABASE\<close> statement and, when that
  one succeeded, the \<open>CREATE TABLE\<close> statement, each with an \<open>ON CLUSTER\<close> clause that
  names the fixed cluster \<open>bms_cluster\<close>; the cluster of the table specification is not
  a parameter of either function.
\<close>

theorem ddl_names_fixed_cluster:
  assumes "conn c = Some d"
  shows "(hasCreatedAt (ts_columns spec) \<longrightarrow>
           (\<exists>rest. snd (createClusteredTable c spec tr) =
              tr @ EvExec (spec_create_database (ts_database spec) ''bms_cluster'')
                 # (if conn_Exec d tr (spec_create_database (ts_database spec) ''bms_cluster'') = None
                    then [EvExec (spec_create_table_head (ts_database spec) (ts_table spec) ''bms_cluster'' @ rest)]
                    else [])))
       \<and> (ts_columns spec \<noteq> [] \<longrightarrow>
           (\<exists>rest. snd (createDistributedTable c spec tr) =
              tr @ EvExec (spec_create_database (ts_database spec) ''bms_cluster'')
                 # (if conn_Exec d tr (spec_create_database (ts_database spec) ''bms_cluster'') = None
                    then [EvExec (spec_create_table_head (ts_database spec) (ts_table spec @ ''_distributed'') ''bms_cluster'' @ rest)]
                    else [])))"
proof (intro conjI impI)
  assume h: "hasCreatedAt (ts_columns spec)"
  obtain rest where r: "create_table_stmt (ts_database spec) (ts_table spec) (ts_ordering_key spec)
        (ts_description spec) (ts_columns spec)
      = spec_create_table_head (ts_database spec) (ts_table spec) ''bms_cluster'' @ rest"
    using create_table_stmt_shape by blast
  show "\<exists>rest. snd (createClusteredTable c spec tr) =
              tr @ EvExec (spec_create_database (ts_database spec) ''bms_cluster'')
                 # (if conn_Exec d tr (spec_create_database (ts_database spec) ''bms_cluster'') = None
                    then [EvExec (spec_create_table_head (ts_database spec) (ts_table spec) ''bms_cluster'' @ rest)]
                    else [])"
    unfolding createClusteredTable_def CreateTable_run[OF assms h] r create_database_stmt_shape
    by (intro exI[of _ rest]) (simp split: option.splits)
next
  assume h: "ts_columns spec \<noteq> []"
  obtain rest where r: "create_distributed_stmt (ts_database spec) (ts_table spec)
        (ts_description spec) (ts_columns spec)
      = spec_create_table_head (ts_database spec) (ts_table spec @ ''_distributed'') ''bms_cluster'' @ rest"
    using create_distributed_stmt_shape by blast
  show "\<exists>rest. snd (createDistributedTable c spec tr) =
              tr @ EvExec (spec_create_database (ts_database spec) ''bms_cluster'')
                 # (if conn_Exec d tr (spec_create_database (ts_database spec) ''bms_cluster'') = None
                    then [EvExec (spec_create_table_head (ts_database spec) (ts_table spec @ ''_distributed'') ''bms_cluster'' @ rest)]
                    else [])"
    unfolding createDistributedTable_def CreateDistributedTable_run[OF assms h] r create_database_stmt_shape
    by (intro exI[of _ rest]) (simp split: option.splits)
qed

theorem ddl_names_fixed_cluster_witness:
  "conn (ex_client ok_driver 1000) = Some ok_driver
   \<and> hasCreatedAt (ts_columns ex_spec) \<and> ts_columns ex_spec \<noteq> []
   \<and> (\<exists>rest. snd (createClusteredTable (ex_client ok_driver 1000) ex_spec []) =
          [EvExec (spec_create_database ''d'' ''bms_cluster''),
           EvExec (spec_create_table_head ''d'' ''t'' ''bms_cluster'' @ rest)])
   \<and> (\<exists>rest. snd (createDistributedTable (ex_client ok_driver 1000) ex_spec []) =
          [EvExec (spec_create_database ''d'' ''bms_cluster''),
           EvExec (spec_create_table_head ''d'' ''t_distributed'' ''bms_cluster'' @ rest)])"
proof -
  have h1: "conn (ex_client ok_driver 1000) = Some ok_driver" by (simp add: ex_client_def)
  have h2: "hasCreatedAt (ts_columns ex_spec)" by (simp add: ex_spec_def)
  have h3: "ts_columns ex_spec \<noteq> []" by (simp add: ex_spec_def)
  have ok: "conn_Exec ok_driver [] (spec_create_database (ts_database ex_spec) ''bms_cluster'') = None"
    by (simp add: ok_driver_def)
  have f: "ts_database ex_spec = ''d''" "ts_table ex_spec = ''t''" by (simp_all add: ex_spec_def)
  note t = ddl_names_fixed_cluster [OF h1, of ex_spec "[]"]
  from t h2 ok have "\<exists>rest. snd (createClusteredTable (ex_client ok_driver 1000) ex_spec []) =
          [EvExec (spec_create_database ''d'' ''bms_cluster''),
           EvExec (spec_create_table_head ''d'' ''t'' ''bms_cluster'' @ rest)]"
    by (simp add: f)
  moreover from t h3 ok have "\<exists>rest. snd (createDistributedTable (ex_client ok_driver 1000) ex_spec []) =
          [EvExec (spec_create_database ''d'' ''bms_cluster''),
           EvExec (spec_create_table_head ''d'' ''t_distributed'' ''bms_cluster'' @ rest)]"
    by (simp add: f)
  ultimately show ?thesis using h1 h2 h3 by blast
qed

text \<open>
  The claim as stated fails on the scenario of the document: for the table specification
  on cluster \<open>c\<close> the first statement issued names \<open>bms_cluster\<close>, not \<open>c\<close>.
\<close>

theorem ddl_cluster_counterexample:
  "ts_cluster ex_spec = ''c''
   \<and> hd (snd (createClusteredTable (ex_client ok_driver 1000) ex_spec []))
       = EvExec ''CREATE DATABASE IF NOT EXISTS d ON CLUSTER bms_cluster''
   \<and> hd (snd (createClusteredTable (ex_client ok_driver 1000) ex_spec []))
       \<noteq> EvExec (spec_create_database (ts_database ex_spec) (ts_cluster ex_spec))
   \<and> hd (snd (createDistributedTable (ex_client ok_driver 1000) ex_spec []))
       \<noteq> EvExec (spec_create_database (ts_database ex_spec) (ts_cluster ex_spec))"
  by (simp add: createClusteredTable_def createDistributedTable_def CreateTable_def CreateDistributedTable_def
        Exec_def ex_client_def ok_driver_def ex_spec_def create_database_stmt_def spec_create_database_def)

text \<open>
  C8 (as amended). \<open>CreateTable\<close> returns the error \<open>created_at column is required\<close>
  exactly when no declared column is named \<open>created_at\<close>, and then it has issued no
  statement. When such a column is declared (and the client has a connection) it issues
  \<open>CREATE DATABASE IF NOT EXISTS\<close> and, when that succeeded,
  \<open>CREATE TABLE IF NOT EXISTS\<close>; it returns the driver's error when one of them fails,
  and succeeds exactly when the driver executes both.
\<close>

theorem create_table_requires_created_at:
  "(fst (CreateTable c database table order desc cols tr) = Some (CreatedAtRequired database table)
      \<longleftrightarrow> \<not> (\<exists>col \<in> set cols. col_Name col = ''created_at''))
   \<and> (\<not> (\<exists>col \<in> set cols. col_Name col = ''created_at'') \<longrightarrow>
        snd (CreateTable c database table order desc cols tr) = tr)
   \<and> ((\<exists>col \<in> set cols. col_Name col = ''created_at'') \<and> conn c = Some d \<longrightarrow>
        (\<exists>r1 r2. create_database_stmt database = ''CREATE DATABASE IF NOT EXISTS '' @ r1
           \<and> create_table_stmt database table order desc cols = ''CREATE TABLE IF NOT EXISTS '' @ r2)
        \<and> CreateTable c database table order desc cols tr =
            (case conn_Exec d tr (create_database_stmt database) of
               Some err \<Rightarrow> (Some (DriverError err), tr @ [EvExec (create_database_stmt database)])
             | None \<Rightarrow>
                 (map_option DriverError
                    (conn_Exec d (tr @ [EvExec (create_database_stmt database)])
                       (create_table_stmt database table order desc cols)),
                  tr @ [EvExec (create_database_stmt database),
                        EvExec (create_table_stmt database table order desc cols)]))
        \<and> (fst (CreateTable c database table order desc cols tr) = None
             \<longleftrightarrow> conn_Exec d tr (create_database_stmt database) = None
               \<and> conn_Exec d (tr @ [EvExec (create_database_stmt database)])
                    (create_table_stmt database table order desc cols) = None))"
proof -
  have p1: "fst (CreateTable c database table order desc cols tr) = Some (CreatedAtRequired database table)
      \<longleftrightarrow> \<not> (\<exists>col \<in> set cols. col_Name col = ''created_at'')"
    unfolding hasCreatedAt_iff[symmetric]
    by (auto simp: CreateTable_def Exec_def split: option.splits prod.splits)
  have p2: "\<not> (\<exists>col \<in> set cols. col_Name col = ''created_at'') \<longrightarrow>
        snd (CreateTable c database table order desc cols tr) = tr"
    unfolding hasCreatedAt_iff[symmetric] by (simp add: CreateTable_def)
  have p3: "(\<exists>col \<in> set cols. col_Name col = ''created_at'') \<and> conn c = Some d \<longrightarrow>
        (\<exists>r1 r2. create_database_stmt database = ''CREATE DATABASE IF NOT EXISTS '' @ r1
           \<and> create_table_stmt database table order desc cols = ''CREATE TABLE IF NOT EXISTS '' @ r2)
        \<and> CreateTable c database table order desc cols tr =
            (case conn_Exec d tr (create_database_stmt database) of
               Some err \<Rightarrow> (Some (DriverError err), tr @ [EvExec (create_database_stmt database)])
             | None \<Rightarrow>
                 (map_option DriverError
                    (conn_Exec d (tr @ [EvExec (create_database_stmt database)])
                       (create_table_stmt database table order desc cols)),
                  tr @ [EvExec (create_database_stmt database),
                        EvExec (create_table_stmt database table order desc cols)]))
        \<and> (fst (CreateTable c database table order desc cols tr) = None
             \<longleftrightarrow> conn_Exec d tr (create_database_stmt database) = None
               \<and> conn_Exec d (tr @ [EvExec (create_database_stmt database)])
                    (create_table_stmt database table order desc cols) = None)"
  proof (intro impI)
    assume a: "(\<exists>col \<in> set cols. col_Name col = ''created_at'') \<and> conn c = Some d"
    then have h: "hasCreatedAt cols" and cn: "conn c = Some d" by (simp_all add: hasCreatedAt_iff)
    have s: "\<exists>r1 r2. create_database_stmt database = ''CREATE DATABASE IF NOT EXISTS '' @ r1
           \<and> create_table_stmt database table order desc cols = ''CREATE TABLE IF NOT EXISTS '' @ r2"
      by (simp add: create_database_stmt_def create_table_stmt_def)
    note run = CreateTable_run[OF cn h, of database table order desc tr]
    have "fst (CreateTable c database table order desc cols tr) = None
             \<longleftrightarrow> conn_Exec d tr (create_database_stmt database) = None
               \<and> conn_Exec d (tr @ [EvExec (create_database_stmt database)])
                    (create_table_stmt database table order desc cols) = None"
      unfolding run by (simp split: option.splits)
    with s run show "(\<exists>r1 r2. create_database_stmt database = ''CREATE DATABASE IF NOT EXISTS '' @ r1
           \<and> create_table_stmt database table order desc cols = ''CREATE TABLE IF NOT EXISTS '' @ r2)
        \<and> CreateTable c database table order desc cols tr =
            (case conn_Exec d tr (create_database_stmt database) of
               Some err \<Rightarrow> (Some (DriverError err), tr @ [EvExec (create_database_stmt database)])
             | None \<Rightarrow>
                 (map_option DriverError
                    (conn_Exec d (tr @ [EvExec (create_database_stmt database)])
                       (create_table_stmt database table order desc cols)),
                  tr @ [EvExec (create_database_stmt database),
                        EvExec (create_table_stmt database table order desc cols)]))
        \<and> (fst (CreateTable c database table order desc cols tr) = None
             \<longleftrightarrow> conn_Exec d tr (create_database_stmt database) = None
               \<and> conn_Exec d (tr @ [EvExec (create_database_stmt database)])
                    (create_table_stmt database table order desc cols) = None)"
      by blast
  qed
  from p1 p2 p3 show ?thesis by blast
qed

theorem create_table_requires_created_at_witness:
  "fst (CreateTable (ex_client ok_driver 1000) ''d'' ''t'' ''id'' ''events''
          [\<lparr>col_Name = ''id'', col_Type = ''UInt64''\<rparr>] []) = Some (CreatedAtRequired ''d'' ''t'')
   \<and> snd (CreateTable (ex_client ok_driver 1000) ''d'' ''t'' ''id'' ''events''
          [\<lparr>col_Name = ''id'', col_Type = ''UInt64''\<rparr>] []) = []
   \<and> fst (CreateTable (ex_client ok_driver 1000) ''d'' ''t'' ''id'' ''events'' (ts_columns ex_spec) []) = None"
proof -
  have n: "\<not> (\<exists>col \<in> set [\<lparr>col_Name = ''id'', col_Type = ''UInt64''\<rparr>]. col_Name col = ''created_at'')"
    by simp
  note t1 = create_table_requires_created_at [of "ex_client ok_driver 1000" "''d''" "''t''" "''id''" "''events''"
      "[\<lparr>col_Name = ''id'', col_Type = ''UInt64''\<rparr>]" "[]" ok_driver]
  from t1 n have a: "fst (CreateTable (ex_client ok_driver 1000) ''d'' ''t'' ''id'' ''events''
          [\<lparr>col_Name = ''id'', col_Type = ''UInt64''\<rparr>] []) = Some (CreatedAtRequired ''d'' ''t'')"
    by blast
  from t1 n have b: "snd (CreateTable (ex_client ok_driver 1000) ''d'' ''t'' ''id'' ''events''
          [\<lparr>col_Name = ''id'', col_Type = ''UInt64''\<rparr>] []) = []"
    by blast
  have y: "(\<exists>col \<in> set (ts_columns ex_spec). col_Name col = ''created_at'') \<and> conn (ex_client ok_driver 1000) = Some ok_driver"
    by (simp add: ex_spec_def ex_client_def)
  have ok: "conn_Exec ok_driver [] (create_database_stmt ''d'') = None
          \<and> conn_Exec ok_driver ([] @ [EvExec (create_database_stmt ''d'')])
               (create_table_stmt ''d'' ''t'' ''id'' ''events'' (ts_columns ex_spec)) = None"
    by (simp add: ok_driver_def)
  note t2 = create_table_requires_created_at [of "ex_client ok_driver 1000" "''d''" "''t''" "''id''" "''events''"
      "ts_columns ex_spec" "[]" ok_driver]
  from t2 y ok have c: "fst (CreateTable (ex_client ok_driver 1000) ''d'' ''t'' ''id'' ''events'' (ts_columns ex_spec) []) = None"
    by blast
  from a b c show ?thesis by blast
qed

text \<open>
  The claim as stated fails when the driver cannot execute a statement: the column
  \<open>created_at\<close> is declared and the call returns the driver's error.
\<close>

theorem create_table_exec_failure_counterexample:
  "hasCreatedAt (ts_columns ex_spec)
   \<and> CreateTable (ex_client exec_fails_driver 1000) ''d'' ''t'' ''id'' ''events'' (ts_columns ex_spec) []
       = (Some (DriverError ''cluster unreachable''),
          [EvExec ''CREATE DATABASE IF NOT EXISTS d ON CLUSTER bms_cluster''])"
  by (simp add: CreateTable_def Exec_def ex_client_def exec_fails_driver_def ok_driver_def ex_spec_def
        create_database_stmt_def)

section \<open>Mapping query results: rows and fields\<close>

lemma rows_loop_Cons:
  "rows_loop assign columns isPtr t (row # rest) sl =
     (case bind_row assign columns isPtr t row of
        Inl err \<Rightarrow> (Some err, sl)
      | Inr r \<Rightarrow> rows_loop assign columns isPtr t rest (sl @ [r]))"
  by (simp add: bind_row_def Let_def split: sum.splits)

lemma rows_loop_shape:
  "\<exists>k records. k \<le> length rs \<and> length records = k
      \<and> snd (rows_loop assign columns isPtr t rs sl) = sl @ records
      \<and> (\<forall>i<k. bind_row assign columns isPtr t (rs ! i) = Inr (records ! i))
      \<and> (if k = length rs then fst (rows_loop assign columns isPtr t rs sl) = None
          else \<exists>e. bind_row assign columns isPtr t (rs ! k) = Inl e
                 \<and> fst (rows_loop assign columns isPtr t rs sl) = Some e)"
proof (induction rs arbitrary: sl)
  case Nil
  show ?case by (intro exI[of _ 0] exI[of _ "[]"]) simp
next
  case (Cons row rest)
  show ?case
  proof (cases "bind_row assign columns isPtr t row")
    case (Inl e)
    then show ?thesis
      by (intro exI[of _ 0] exI[of _ "[]"]) (simp add: rows_loop_Cons del: rows_loop.simps)
  next
    case (Inr r)
    from Cons.IH[of "sl @ [r]"] obtain k records where
      kr: "k \<le> length rest" "length records = k"
        "snd (rows_loop assign columns isPtr t rest (sl @ [r])) = (sl @ [r]) @ records"
        "\<forall>i<k. bind_row assign columns isPtr t (rest ! i) = Inr (records ! i)"
        "if k = length rest then fst (rows_loop assign columns isPtr t rest (sl @ [r])) = None
         else \<exists>e. bind_row assign columns isPtr t (rest ! k) = Inl e
                 \<and> fst (rows_loop assign columns isPtr t rest (sl @ [r])) = Some e"
      by blast
    have step: "rows_loop assign columns isPtr t (row # rest) sl = rows_loop assign columns isPtr t rest (sl @ [r])"
      using Inr by (simp add: rows_loop_Cons del: rows_loop.simps)
    have a: "\<forall>i<Suc k. bind_row assign columns isPtr t ((row # rest) ! i) = Inr ((r # records) ! i)"
    proof (intro allI impI)
      fix i assume "i < Suc k"
      then show "bind_row assign columns isPtr t ((row # rest) ! i) = Inr ((r # records) ! i)"
        using Inr kr(4) by (cases i) auto
    qed
    show ?thesis
      unfolding step
      using kr(1,2,3,5) a
      by (intro exI[of _ "Suc k"] exI[of _ "r # records"]) (auto split: if_splits)
  qed
qed

lemma findStructField_loop_Some:
  "findStructField_loop fvs col i0 = Some p \<Longrightarrow>
   i0 \<le> p \<and> p - i0 < length fvs \<and> IsExported (fst (fvs ! (p - i0)))
     \<and> getColumnName (fst (fvs ! (p - i0))) = col"
proof (induction fvs arbitrary: i0)
  case Nil
  then show ?case by simp
next
  case (Cons fv rest)
  show ?case
  proof (cases "IsExported (fst fv) \<and> getColumnName (fst fv) = col")
    case True
    with Cons.prems show ?thesis by auto
  next
    case False
    with Cons.prems have "findStructField_loop rest col (i0 + 1) = Some p" by (auto split: if_splits)
    from Cons.IH[OF this] have "i0 + 1 \<le> p" "p - (i0 + 1) < length rest"
      "IsExported (fst (rest ! (p - (i0 + 1))))" "getColumnName (fst (rest ! (p - (i0 + 1)))) = col"
      by auto
    moreover from \<open>i0 + 1 \<le> p\<close> have "p - i0 = Suc (p - (i0 + 1))" by simp
    ultimately show ?thesis by simp
  qed
qed

lemma findStructField_loop_None:
  "findStructField_loop fvs col i0 = None \<Longrightarrow>
   \<forall>fv \<in> set fvs. \<not> (IsExported (fst fv) \<and> getColumnName (fst fv) = col)"
  by (induction fvs arbitrary: i0) (auto split: if_splits)

lemma findStructField_Some:
  "findStructField sv col = Some p \<Longrightarrow>
   p < length (struct_fields sv) \<and> IsExported (fst (struct_fields sv ! p))
     \<and> getColumnName (fst (struct_fields sv ! p)) = col"
  using findStructField_loop_Some[of "struct_fields sv" col 0 p] by (simp add: findStructField_def)

lemma findStructField_None:
  "findStructField sv col = None \<Longrightarrow>
   \<forall>fv \<in> set (struct_fields sv). \<not> (IsExported (fst fv) \<and> getColumnName (fst fv) = col)"
  using findStructField_loop_None[of "struct_fields sv" col 0] by (simp add: findStructField_def)

lemma distinct_targets:
  "distinct columns \<Longrightarrow> distinct (filter (\<lambda>d. d \<noteq> None) (map (findStructField sv) columns))"
proof (induction columns)
  case Nil
  then show ?case by simp
next
  case (Cons col rest)
  have "findStructField sv col \<noteq> None \<Longrightarrow> findStructField sv col \<notin> set (map (findStructField sv) rest)"
  proof
    assume n: "findStructField sv col \<noteq> None" and m: "findStructField sv col \<in> set (map (findStructField sv) rest)"
    from n obtain p where p: "findStructField sv col = Some p" by auto
    from m p obtain col' where c': "col' \<in> set rest" "findStructField sv col' = Some p" by auto
    from findStructField_Some[OF p] findStructField_Some[OF c'(2)] have "col = col'" by simp
    with c'(1) Cons.prems show False by simp
  qed
  with Cons show ?case by auto
qed

lemma map_fst_update_same: "p < length fvs \<Longrightarrow> map fst (fvs[p := (fst (fvs ! p), v)]) = map fst fvs"
proof -
  assume p: "p < length fvs"
  have "(map fst fvs)[p := map fst fvs ! p] = map fst fvs" by (rule list_update_id)
  with p show ?thesis by (simp add: map_update)
qed

lemma scan_loop_props:
  assumes "scan_loop assign ds svs fvs = Inr fvs'" and "length ds = length svs"
    and "\<forall>p. Some p \<in> set ds \<longrightarrow> p < length fvs"
    and "distinct (filter (\<lambda>d. d \<noteq> None) ds)"
  shows "map fst fvs' = map fst fvs
       \<and> (\<forall>p<length fvs. Some p \<notin> set ds \<longrightarrow> fvs' ! p = fvs ! p)
       \<and> (\<forall>i<length ds. \<forall>p. ds ! i = Some p \<longrightarrow> assign (snd (fvs ! p)) (svs ! i) = Inr (snd (fvs' ! p)))"
  using assms
proof (induction ds svs arbitrary: fvs rule: list_induct2')
  case 1
  then show ?case by simp
next
  case (2 d ds)
  then show ?case by simp
next
  case (3 sv svs)
  then show ?case by simp
next
  case (4 d ds sv svs)
  show ?case
  proof (cases d)
    case None
    with 4 have r: "scan_loop assign ds svs fvs = Inr fvs'" "length ds = length svs"
      "\<forall>p. Some p \<in> set ds \<longrightarrow> p < length fvs" "distinct (filter (\<lambda>d. d \<noteq> None) ds)"
      by auto
    note ih = "4.IH"[OF r]
    have "\<forall>i<length (d # ds). \<forall>p. (d # ds) ! i = Some p \<longrightarrow>
            assign (snd (fvs ! p)) ((sv # svs) ! i) = Inr (snd (fvs' ! p))"
    proof (intro allI impI)
      fix i p assume "i < length (d # ds)" "(d # ds) ! i = Some p"
      then show "assign (snd (fvs ! p)) ((sv # svs) ! i) = Inr (snd (fvs' ! p))"
        using None ih by (cases i) auto
    qed
    with ih None show ?thesis by auto
  next
    case (Some p)
    with "4.prems" have pl: "p < length fvs" by auto
    from Some "4.prems"(1) obtain v where v: "assign (snd (fvs ! p)) sv = Inr v"
      and r1: "scan_loop assign ds svs (fvs[p := (fst (fvs ! p), v)]) = Inr fvs'"
      by (auto split: sum.splits)
    let ?f1 = "fvs[p := (fst (fvs ! p), v)]"
    from "4.prems" Some have r: "length ds = length svs"
      "\<forall>q. Some q \<in> set ds \<longrightarrow> q < length ?f1" "distinct (filter (\<lambda>d. d \<noteq> None) ds)"
      and notin: "Some p \<notin> set ds"
      by auto
    note ih = "4.IH"[OF r1 r]
    have m: "map fst ?f1 = map fst fvs" using pl by (rule map_fst_update_same)
    have pv: "fvs' ! p = (fst (fvs ! p), v)" using ih notin pl by simp
    have u: "\<forall>q<length fvs. Some q \<notin> set (d # ds) \<longrightarrow> fvs' ! q = fvs ! q"
    proof (intro allI impI)
      fix q assume q: "q < length fvs" "Some q \<notin> set (d # ds)"
      with Some have "q \<noteq> p" "Some q \<notin> set ds" by auto
      with ih q(1) show "fvs' ! q = fvs ! q" by simp
    qed
    have a: "\<forall>i<length (d # ds). \<forall>q. (d # ds) ! i = Some q \<longrightarrow>
            assign (snd (fvs ! q)) ((sv # svs) ! i) = Inr (snd (fvs' ! q))"
    proof (intro allI impI)
      fix i q assume i: "i < length (d # ds)" "(d # ds) ! i = Some q"
      show "assign (snd (fvs ! q)) ((sv # svs) ! i) = Inr (snd (fvs' ! q))"
      proof (cases i)
        case 0
        with i Some have "q = p" by simp
        with 0 v pv show ?thesis by simp
      next
        case (Suc i')
        with i have i': "i' < length ds" "ds ! i' = Some q" by auto
        then have "Some q \<in> set ds" by (metis nth_mem)
        with notin have "q \<noteq> p" by auto
        from ih i' have "assign (snd (?f1 ! q)) (svs ! i') = Inr (snd (fvs' ! q))" by blast
        with \<open>q \<noteq> p\<close> Suc show ?thesis by simp
      qed
    qed
    from ih m u a show ?thesis by simp
  qed
qed

lemma scan_loop_keeps_fields:
  "scan_loop assign ds svs fvs = Inr fvs' \<Longrightarrow> \<forall>p. Some p \<in> set ds \<longrightarrow> p < length fvs \<Longrightarrow>
   map fst fvs' = map fst fvs \<and> (\<forall>p<length fvs. Some p \<notin> set ds \<longrightarrow> fvs' ! p = fvs ! p)"
proof (induction assign ds svs fvs rule: scan_loop.induct)
  case (1 assign d ds sv svs fvs)
  show ?case
  proof (cases d)
    case None
    with 1 show ?thesis by auto
  next
    case (Some p)
    with "1.prems" have pl: "p < length fvs" by auto
    from Some "1.prems"(1) obtain v where v: "assign (snd (fvs ! p)) sv = Inr v"
      and r1: "scan_loop assign ds svs (fvs[p := (fst (fvs ! p), v)]) = Inr fvs'"
      by (auto split: sum.splits)
    from "1.prems"(2) have "\<forall>q. Some q \<in> set ds \<longrightarrow> q < length (fvs[p := (fst (fvs ! p), v)])" by auto
    from "1.IH"(2)[OF Some v r1 this] pl Some map_fst_update_same[OF pl, of v] show ?thesis
      by auto
  qed
qed auto

lemma scan_loop_succeeds:
  assumes "length ds = length svs" and "\<forall>p. Some p \<in> set ds \<longrightarrow> p < length fvs"
    and "distinct (filter (\<lambda>d. d \<noteq> None) ds)"
    and "\<forall>i<length ds. \<forall>p. ds ! i = Some p \<longrightarrow> (\<exists>v. assign (snd (fvs ! p)) (svs ! i) = Inr v)"
  shows "\<exists>fvs'. scan_loop assign ds svs fvs = Inr fvs'"
  using assms
proof (induction ds svs arbitrary: fvs rule: list_induct2')
  case 1
  then show ?case by simp
next
  case (2 d ds)
  then show ?case by simp
next
  case (3 sv svs)
  then show ?case by simp
next
  case (4 d ds sv svs)
  show ?case
  proof (cases d)
    case None
    from "4.prems"(4) have "\<forall>i<length ds. \<forall>p. ds ! i = Some p \<longrightarrow> (\<exists>v. assign (snd (fvs ! p)) (svs ! i) = Inr v)"
      by fastforce
    with "4.prems" None have "\<exists>fvs'. scan_loop assign ds svs fvs = Inr fvs'"
      by (intro "4.IH") auto
    with None show ?thesis by simp
  next
    case (Some p)
    from "4.prems"(4) Some have "\<exists>v. assign (snd (fvs ! p)) sv = Inr v" by fastforce
    then obtain v where v: "assign (snd (fvs ! p)) sv = Inr v" by blast
    let ?f1 = "fvs[p := (fst (fvs ! p), v)]"
    from "4.prems" Some have notin: "Some p \<notin> set ds" by auto
    have "\<forall>i<length ds. \<forall>q. ds ! i = Some q \<longrightarrow> (\<exists>w. assign (snd (?f1 ! q)) (svs ! i) = Inr w)"
    proof (intro allI impI)
      fix i q assume i: "i < length ds" "ds ! i = Some q"
      then have "Some q \<in> set ds" by (metis nth_mem)
      with notin have "q \<noteq> p" by auto
      from "4.prems"(4) i have "\<exists>w. assign (snd (fvs ! q)) (svs ! i) = Inr w" by fastforce
      with \<open>q \<noteq> p\<close> show "\<exists>w. assign (snd (?f1 ! q)) (svs ! i) = Inr w" by simp
    qed
    with "4.prems" Some have "\<exists>fvs'. scan_loop assign ds svs ?f1 = Inr fvs'"
      by (intro "4.IH") auto
    with Some v show ?thesis by simp
  qed
qed

lemma targets_in_range:
  "\<forall>p. Some p \<in> set (map (findStructField sv) columns) \<longrightarrow> p < length (struct_fields sv)"
proof (intro allI impI)
  fix p assume "Some p \<in> set (map (findStructField sv) columns)"
  then obtain col where "findStructField sv col = Some p" by auto
  from findStructField_Some[OF this] show "p < length (struct_fields sv)" by simp
qed

lemma bind_row_props:
  assumes "bind_row assign columns isPtr t row = Inr r"
  shows "\<exists>fvs. r = (if isPtr then VPtr (VStruct fvs) else VStruct fvs)
      \<and> length row = length columns
      \<and> map fst fvs = map fst (struct_fields (zero t))
      \<and> (\<forall>p<length fvs. (\<forall>col \<in> set columns. findStructField (zero t) col \<noteq> Some p) \<longrightarrow>
             fvs ! p = struct_fields (zero t) ! p)
      \<and> (distinct columns \<longrightarrow>
           (\<forall>i<length columns. \<forall>p. findStructField (zero t) (columns ! i) = Some p \<longrightarrow>
               assign (snd (struct_fields (zero t) ! p)) (row ! i) = Inr (snd (fvs ! p))))"
proof -
  let ?z = "struct_fields (zero t)"
  let ?ds = "map (findStructField (zero t)) columns"
  from assms obtain fvs where s: "Scan assign ?ds row ?z = Inr fvs"
    and r: "r = (if isPtr then VPtr (VStruct fvs) else VStruct fvs)"
    by (auto simp: bind_row_def split: sum.splits)
  from s have len: "length row = length columns" and sl: "scan_loop assign ?ds row ?z = Inr fvs"
    by (auto simp: Scan_def split: if_splits)
  note k = scan_loop_keeps_fields[OF sl targets_in_range]
  from k have lf: "length fvs = length ?z" by (metis length_map)
  have u: "\<forall>p<length fvs. (\<forall>col \<in> set columns. findStructField (zero t) col \<noteq> Some p) \<longrightarrow> fvs ! p = ?z ! p"
  proof (intro allI impI)
    fix p assume p: "p < length fvs" "\<forall>col \<in> set columns. findStructField (zero t) col \<noteq> Some p"
    then have "Some p \<notin> set ?ds" by auto
    with k p(1) lf show "fvs ! p = ?z ! p" by simp
  qed
  have d: "distinct columns \<longrightarrow>
           (\<forall>i<length columns. \<forall>p. findStructField (zero t) (columns ! i) = Some p \<longrightarrow>
               assign (snd (?z ! p)) (row ! i) = Inr (snd (fvs ! p)))"
  proof
    assume "distinct columns"
    then have dd: "distinct (filter (\<lambda>d. d \<noteq> None) ?ds)" by (rule distinct_targets)
    have "length ?ds = length row" using len by simp
    from scan_loop_props[OF sl this targets_in_range dd]
    show "\<forall>i<length columns. \<forall>p. findStructField (zero t) (columns ! i) = Some p \<longrightarrow>
               assign (snd (?z ! p)) (row ! i) = Inr (snd (fvs ! p))"
      by simp
  qed
  from r len k u d show ?thesis by blast
qed

lemma bind_row_succeeds:
  assumes "length row = length columns" and "distinct columns"
    and "\<forall>i<length columns. \<forall>p. findStructField (zero t) (columns ! i) = Some p \<longrightarrow>
            (\<exists>v. assign (snd (struct_fields (zero t) ! p)) (row ! i) = Inr v)"
  shows "\<exists>r. bind_row assign columns isPtr t row = Inr r"
proof -
  let ?z = "struct_fields (zero t)"
  let ?ds = "map (findStructField (zero t)) columns"
  have l: "length ?ds = length row" using assms(1) by simp
  have a: "\<forall>i<length ?ds. \<forall>p. ?ds ! i = Some p \<longrightarrow> (\<exists>v. assign (snd (?z ! p)) (row ! i) = Inr v)"
    using assms(3) by simp
  from scan_loop_succeeds[OF l targets_in_range distinct_targets[OF assms(2)] a]
  obtain fvs where "scan_loop assign ?ds row ?z = Inr fvs" by blast
  then show ?thesis using l by (simp add: bind_row_def Scan_def)
qed

lemma QueryToStruct_run:
  assumes "KindV dest = Pointer" and "KindV (ElemV dest) = Slice"
    and "isPtr = (KindT (ElemT (type_of (ElemV dest))) = Pointer)"
    and "t = (if isPtr then ElemT (ElemT (type_of (ElemV dest))) else ElemT (type_of (ElemV dest)))"
    and "KindT t = Struct"
    and "Query c query args = Inr rs" and "Columns rs = Inr columns"
  shows "QueryToStruct assign c dest query args =
     (case rows_loop assign columns isPtr t (delivered rs) (elems (ElemV dest)) of
        (Some err, sl) \<Rightarrow> (Some (DriverError err), sl)
      | (None, sl) \<Rightarrow> (map_option DriverError (Err rs), sl))"
  using assms by (simp add: QueryToStruct_def Let_def)

text \<open>
  C9. Let \<open>dest\<close> point to a slice of structs (or of pointers to structs), and let the
  query return rows with their column names. Then the elements that \<open>QueryToStruct\<close>
  adds to the slice are the bound records of the first \<open>k\<close> rows, in order, where row
  \<open>k\<close> (counting from 0) is the first row whose scan fails, and the error of that scan
  is returned; when no scan fails every row is bound and \<open>rows.Err()\<close> is returned.
  A bound record has the fields of the element type; a field that no result column
  resolves to keeps its zero value; with distinct column names, the field that a column
  resolves to holds the value converted from that column. A column that resolves to no
  field puts no condition on the row: it is scanned into a dummy. A column resolves to
  the first exported field whose column name is the name of the column.
\<close>

theorem rows_bound_in_arrival_order:
  assumes "KindV dest = Pointer" and "KindV (ElemV dest) = Slice"
    and "isPtr = (KindT (ElemT (type_of (ElemV dest))) = Pointer)"
    and "t = (if isPtr then ElemT (ElemT (type_of (ElemV dest))) else ElemT (type_of (ElemV dest)))"
    and "KindT t = Struct"
    and "Query c query args = Inr rs" and "Columns rs = Inr columns"
  shows "(\<exists>k records. k \<le> length (delivered rs) \<and> length records = k
           \<and> snd (QueryToStruct assign c dest query args) = elems (ElemV dest) @ records
           \<and> (\<forall>i<k. bind_row assign columns isPtr t (delivered rs ! i) = Inr (records ! i))
           \<and> (if k = length (delivered rs)
               then fst (QueryToStruct assign c dest query args) = map_option DriverError (Err rs)
               else \<exists>e. bind_row assign columns isPtr t (delivered rs ! k) = Inl e
                      \<and> fst (QueryToStruct assign c dest query args) = Some (DriverError e)))
       \<and> (\<forall>row r. bind_row assign columns isPtr t row = Inr r \<longrightarrow>
            (\<exists>fvs. r = (if isPtr then VPtr (VStruct fvs) else VStruct fvs)
               \<and> length row = length columns
               \<and> map fst fvs = map fst (struct_fields (zero t))
               \<and> (\<forall>p<length fvs. (\<forall>col \<in> set columns. findStructField (zero t) col \<noteq> Some p) \<longrightarrow>
                      fvs ! p = struct_fields (zero t) ! p)
               \<and> (distinct columns \<longrightarrow>
                    (\<forall>i<length columns. \<forall>p. findStructField (zero t) (columns ! i) = Some p \<longrightarrow>
                        assign (snd (struct_fields (zero t) ! p)) (row ! i) = Inr (snd (fvs ! p))))))
       \<and> (\<forall>row. length row = length columns \<and> distinct columns
              \<and> (\<forall>i<length columns. \<forall>p. findStructField (zero t) (columns ! i) = Some p \<longrightarrow>
                    (\<exists>v. assign (snd (struct_fields (zero t) ! p)) (row ! i) = Inr v))
            \<longrightarrow> (\<exists>r. bind_row assign columns isPtr t row = Inr r))
       \<and> (\<forall>col. case findStructField (zero t) col of
              Some p \<Rightarrow> p < length (struct_fields (zero t))
                        \<and> IsExported (fst (struct_fields (zero t) ! p))
                        \<and> getColumnName (fst (struct_fields (zero t) ! p)) = col
            | None \<Rightarrow> \<forall>fv \<in> set (struct_fields (zero t)).
                        \<not> (IsExported (fst fv) \<and> getColumnName (fst fv) = col))"
proof -
  let ?Q = "QueryToStruct assign c dest query args"
  let ?L = "rows_loop assign columns isPtr t (delivered rs) (elems (ElemV dest))"
  note run = QueryToStruct_run[OF assms, of assign]
  from rows_loop_shape[of "delivered rs" assign columns isPtr t "elems (ElemV dest)"]
  obtain k records where kr: "k \<le> length (delivered rs)" "length records = k"
    "snd ?L = elems (ElemV dest) @ records"
    "\<forall>i<k. bind_row assign columns isPtr t (delivered rs ! i) = Inr (records ! i)"
    "if k = length (delivered rs) then fst ?L = None
     else \<exists>e. bind_row assign columns isPtr t (delivered rs ! k) = Inl e \<and> fst ?L = Some e"
    by blast
  have s: "snd ?Q = snd ?L"
    unfolding run by (cases ?L) (auto split: option.splits)
  have f: "fst ?Q = (case fst ?L of Some err \<Rightarrow> Some (DriverError err) | None \<Rightarrow> map_option DriverError (Err rs))"
    unfolding run by (cases ?L) (auto split: option.splits)
  have e: "if k = length (delivered rs)
               then fst ?Q = map_option DriverError (Err rs)
               else \<exists>e. bind_row assign columns isPtr t (delivered rs ! k) = Inl e
                      \<and> fst ?Q = Some (DriverError e)"
    using kr(5) f by (auto split: if_splits)
  have p1: "\<exists>k records. k \<le> length (delivered rs) \<and> length records = k
           \<and> snd ?Q = elems (ElemV dest) @ records
           \<and> (\<forall>i<k. bind_row assign columns isPtr t (delivered rs ! i) = Inr (records ! i))
           \<and> (if k = length (delivered rs)
               then fst ?Q = map_option DriverError (Err rs)
               else \<exists>e. bind_row assign columns isPtr t (delivered rs ! k) = Inl e
                      \<and> fst ?Q = Some (DriverError e))"
    using kr(1,2,3,4) s e by metis
  have p2: "\<forall>row r. bind_row assign columns isPtr t row = Inr r \<longrightarrow>
            (\<exists>fvs. r = (if isPtr then VPtr (VStruct fvs) else VStruct fvs)
               \<and> length row = length columns
               \<and> map fst fvs = map fst (struct_fields (zero t))
               \<and> (\<forall>p<length fvs. (\<forall>col \<in> set columns. findStructField (zero t) col \<noteq> Some p) \<longrightarrow>
                      fvs ! p = struct_fields (zero t) ! p)
               \<and> (distinct columns \<longrightarrow>
                    (\<forall>i<length columns. \<forall>p. findStructField (zero t) (columns ! i) = Some p \<longrightarrow>
                        assign (snd (struct_fields (zero t) ! p)) (row ! i) = Inr (snd (fvs ! p)))))"
    using bind_row_props by blast
  have p3: "\<forall>row. length row = length columns \<and> distinct columns
              \<and> (\<forall>i<length columns. \<forall>p. findStructField (zero t) (columns ! i) = Some p \<longrightarrow>
                    (\<exists>v. assign (snd (struct_fields (zero t) ! p)) (row ! i) = Inr v))
            \<longrightarrow> (\<exists>r. bind_row assign columns isPtr t row = Inr r)"
    using bind_row_succeeds by blast
  have p4: "\<forall>col. case findStructField (zero t) col of
              Some p \<Rightarrow> p < length (struct_fields (zero t))
                        \<and> IsExported (fst (struct_fields (zero t) ! p))
                        \<and> getColumnName (fst (struct_fields (zero t) ! p)) = col
            | None \<Rightarrow> \<forall>fv \<in> set (struct_fields (zero t)).
                        \<not> (IsExported (fst fv) \<and> getColumnName (fst fv) = col)"
  proof
    fix col
    show "case findStructField (zero t) col of
              Some p \<Rightarrow> p < length (struct_fields (zero t))
                        \<and> IsExported (fst (struct_fields (zero t) ! p))
                        \<and> getColumnName (fst (struct_fields (zero t) ! p)) = col
            | None \<Rightarrow> \<forall>fv \<in> set (struct_fields (zero t)).
                        \<not> (IsExported (fst fv) \<and> getColumnName (fst fv) = col)"
      using findStructField_Some[of "zero t" col] findStructField_None[of "zero t" col]
      by (cases "findStructField (zero t) col") auto
  qed
  from p1 p2 p3 p4 show ?thesis by (intro conjI)
qed

lemmas eval_query = QueryToStruct_def Query_def ex_query_client_def ex_dest_def ex_rows_def ex_User_def
  ex_row_def ex_user_def ex_assign_def Scan_def findStructField_def eval_names Let_def

lemma ex_query_run:
  "QueryToStruct ex_assign ex_query_client ex_dest ''SELECT id, name, extra_unmapped FROM users'' []
     = (Some (DriverError ''unsupported Scan''), [ex_user 1 ''a'', ex_user 2 ''b''])"
  by (simp add: eval_query)

theorem rows_bound_in_arrival_order_witness:
  "KindV ex_dest = Pointer \<and> KindV (ElemV ex_dest) = Slice \<and> KindT ex_User = Struct
   \<and> Query ex_query_client ''SELECT id, name, extra_unmapped FROM users'' [] = Inr ex_rows
   \<and> Columns ex_rows = Inr [''id'', ''name'', ''extra_unmapped'']
   \<and> (\<exists>k records. k \<le> length (delivered ex_rows) \<and> length records = k
         \<and> snd (QueryToStruct ex_assign ex_query_client ex_dest ''SELECT id, name, extra_unmapped FROM users'' [])
             = elems (ElemV ex_dest) @ records)
   \<and> QueryToStruct ex_assign ex_query_client ex_dest ''SELECT id, name, extra_unmapped FROM users'' []
       = (Some (DriverError ''unsupported Scan''), [ex_user 1 ''a'', ex_user 2 ''b''])"
proof -
  have h1: "KindV ex_dest = Pointer" by (simp add: ex_dest_def)
  have h2: "KindV (ElemV ex_dest) = Slice" by (simp add: ex_dest_def)
  have h3: "False = (KindT (ElemT (type_of (ElemV ex_dest))) = Pointer)"
    by (simp add: ex_dest_def ex_User_def)
  have h4: "ex_User = (if False then ElemT (ElemT (type_of (ElemV ex_dest))) else ElemT (type_of (ElemV ex_dest)))"
    by (simp add: ex_dest_def)
  have h5: "KindT ex_User = Struct" by (simp add: ex_User_def)
  have h6: "Query ex_query_client ''SELECT id, name, extra_unmapped FROM users'' [] = Inr ex_rows"
    by (simp add: Query_def ex_query_client_def)
  have h7: "Columns ex_rows = Inr [''id'', ''name'', ''extra_unmapped'']" by (simp add: ex_rows_def)
  from rows_bound_in_arrival_order [OF h1 h2 h3 h4 h5 h6 h7, of ex_assign]
  have "\<exists>k records. k \<le> length (delivered ex_rows) \<and> length records = k
         \<and> snd (QueryToStruct ex_assign ex_query_client ex_dest ''SELECT id, name, extra_unmapped FROM users'' [])
             = elems (ElemV ex_dest) @ records"
    by blast
  with h1 h2 h5 h6 h7 ex_query_run show ?thesis by blast
qed

end
